theory Spec2Isabelle
  imports Main "HOL-Library.AList" "HOL-Library.Word"
begin

section \<open>The in-memory tree of \<open>fsProvider.ts\<close>\<close>

text \<open>
  The classes \<open>File\<close> and \<open>Directory\<close> are objects that the provider mutates in
  place and shares by reference (a directory's \<open>entries\<close> map holds references to its
  children). The model keeps them in an explicit store: a list of objects, an object's
  address being its index. \<open>new\<close> appends to the store. The root directory is the
  first object allocated (the field initialiser \<open>root = new Directory('')\<close>) and the
  field is never reassigned, so the root is address 0.

  A JavaScript \<open>Map\<close> iterates in insertion order, \<open>set\<close> on a present key keeps its
  place, \<open>delete\<close> removes the key: an association list with \<open>map_of\<close>,
  \<open>AList.update\<close> and \<open>AList.delete\<close>.

  Times and sizes are JavaScript numbers that only ever hold integers here.
\<close>

type_synonym byte = "8 word"
type_synonym addr = nat

datatype Entry =
    File (ctime: int) (mtime: int) (fsize: int) (name: string) (data: "byte list option")
  | Directory (ctime: int) (mtime: int) (fsize: int) (name: string)
      (entries: "(string \<times> addr) list")

type_synonym store = "Entry list"

text \<open>The constructors: \<open>now\<close> is what \<open>Date.now()\<close> returns.\<close>

definition new_File :: "int \<Rightarrow> string \<Rightarrow> Entry" where
  "new_File now nm = File now now 0 nm None"

definition new_Directory :: "int \<Rightarrow> string \<Rightarrow> Entry" where
  "new_Directory now nm = Directory now now 0 nm []"

text \<open>Field assignments.\<close>

fun set_mtime :: "int \<Rightarrow> Entry \<Rightarrow> Entry" where
  "set_mtime t (File c m z n d) = File c t z n d"
| "set_mtime t (Directory c m z n es) = Directory c t z n es"

fun set_fsize :: "int \<Rightarrow> Entry \<Rightarrow> Entry" where
  "set_fsize k (File c m z n d) = File c m k n d"
| "set_fsize k (Directory c m z n es) = Directory c m k n es"

fun set_name :: "string \<Rightarrow> Entry \<Rightarrow> Entry" where
  "set_name nm (File c m z n d) = File c m z nm d"
| "set_name nm (Directory c m z n es) = Directory c m z nm es"

fun set_data :: "byte list \<Rightarrow> Entry \<Rightarrow> Entry" where
  "set_data b (File c m z n d) = File c m z n (Some b)"
| "set_data b (Directory c m z n es) = Directory c m z n es"

fun set_entries :: "(string \<times> addr) list \<Rightarrow> Entry \<Rightarrow> Entry" where
  "set_entries es' (File c m z n d) = File c m z n d"
| "set_entries es' (Directory c m z n es) = Directory c m z n es'"

text \<open>\<open>e instanceof Directory\<close>, and \<open>dir.entries.get(k)\<close> of an object that may be a file.\<close>

fun isDirectory :: "Entry \<Rightarrow> bool" where
  "isDirectory (Directory c m z n es) = True"
| "isDirectory (File c m z n d) = False"

fun children :: "Entry \<Rightarrow> (string \<times> addr) list" where
  "children (Directory c m z n es) = es"
| "children (File c m z n d) = []"

subsection \<open>Errors, change events, timers, requests\<close>

datatype error =
    FileNotFound | FileExists | FileNotADirectory | FileIsADirectory
  | RequestError | SyntaxError | TypeError | EvalError

datatype FileChangeType = Changed | Created | Deleted

datatype FileChangeEvent = Event (etype: FileChangeType) (uri: string)

text \<open>
  The \<open>request.OptionsWithUrl\<close> object, with the fields the provider assigns
  (\<open>http_method\<close> is its field \<open>method\<close>; \<open>body\<close>
  holds the bytes whose \<open>toString()\<close> is sent as \<open>apiAnonymous\<close>),
  and the HTTP requests issued so far (\<open>request(url, options, callback)\<close>), as
  method and URL.
\<close>

record Options =
  http_method :: string
  url :: string
  Host :: string
  rejectUnauthorized :: bool
  username :: string
  password :: string
  contentType :: "string option"
  body :: "byte list option"
  json :: bool

text \<open>
  The provider object. \<open>timers\<close> is the runtime's table of armed timeouts
  (handle and deadline) and \<open>nextTimer\<close> the next handle
  \<open>setTimeout\<close> gives out; \<open>fired\<close> collects what
  \<open>_emitter.fire\<close> delivered, one list per delivery.
\<close>

record IcrFS =
  heap :: store
  options :: "Options option"
  requests :: "(string \<times> string) list"
  bufferedEvents :: "FileChangeEvent list"
  fireSoonHandle :: "nat option"
  timers :: "(nat \<times> int) list"
  nextTimer :: nat
  fired :: "FileChangeEvent list list"

definition root :: addr where
  "root = 0"

definition new_IcrFS :: "int \<Rightarrow> IcrFS" where
  "new_IcrFS now = \<lparr> heap = [new_Directory now []], options = None, requests = [],
     bufferedEvents = [], fireSoonHandle = None, timers = [], nextTimer = 0, fired = [] \<rparr>"

subsection \<open>Paths\<close>

text \<open>
  A \<open>vscode.Uri\<close> is modelled by its \<open>path\<close> component, and
  \<open>uri.with({path: p})\<close> by \<open>p\<close> (the checks that the editor's
  class makes on the new path are not modelled). \<open>split_slash\<close> is
  \<open>String.prototype.split('/')\<close>; \<open>basename\<close> and
  \<open>dirname\<close> are \<open>path.posix.basename\<close> and
  \<open>path.posix.dirname\<close> of Node.js: the last run of characters other than
  \<open>/\<close>, and what is before the \<open>/\<close> that precedes it, the first
  character never being looked at (\<open>/\<close> or \<open>.\<close> when there is no
  such \<open>/\<close>, and \<open>//\<close> when it is the second character of a path
  that starts with \<open>/\<close>).
\<close>

fun split_slash :: "string \<Rightarrow> string list" where
  "split_slash [] = [[]]"
| "split_slash (c # cs) =
     (if c = CHR ''/'' then [] # split_slash cs
      else (case split_slash cs of [] \<Rightarrow> [[c]] | x # xs \<Rightarrow> (c # x) # xs))"

definition basename :: "string \<Rightarrow> string" where
  "basename p =
     rev (takeWhile (\<lambda>c. c \<noteq> CHR ''/'') (dropWhile (\<lambda>c. c = CHR ''/'') (rev p)))"

definition dirname :: "string \<Rightarrow> string" where
  "dirname p =
     (if p = [] then ''.''
      else
        let hasRoot = (hd p = CHR ''/'');
            r = dropWhile (\<lambda>c. c \<noteq> CHR ''/'')
                  (dropWhile (\<lambda>c. c = CHR ''/'') (rev (tl p)))
        in if r = [] then (if hasRoot then ''/'' else ''.'')
           else if hasRoot \<and> length r = 1 then ''//''
           else take (length r) p)"

subsection \<open>Lookup\<close>

text \<open>
  The loop of \<open>_lookup\<close>: empty parts are skipped; a part is looked up in the
  current object's \<open>entries\<close> when that object is a directory, and is
  undefined otherwise. \<open>None\<close> is the loop leaving through \<open>if
  (!child)\<close>.
\<close>

fun lookup_loop :: "store \<Rightarrow> addr \<Rightarrow> string list \<Rightarrow> addr option" where
  "lookup_loop h entry [] = Some entry"
| "lookup_loop h entry (part # parts) =
     (if part = [] then lookup_loop h entry parts
      else (case (if isDirectory (h ! entry) then map_of (children (h ! entry)) part else None) of
              None \<Rightarrow> None
            | Some child \<Rightarrow> lookup_loop h child parts))"

definition lookup :: "string \<Rightarrow> bool \<Rightarrow> IcrFS \<Rightarrow> error + addr option" where
  "lookup u silent s =
     (case lookup_loop (heap s) root (split_slash u) of
        None \<Rightarrow> (if \<not> silent then Inl FileNotFound else Inr None)
      | Some entry \<Rightarrow> Inr (Some entry))"

definition lookupAsDirectory :: "string \<Rightarrow> bool \<Rightarrow> IcrFS \<Rightarrow> error + addr" where
  "lookupAsDirectory u silent s =
     (case lookup u silent s of
        Inl e \<Rightarrow> Inl e
      | Inr None \<Rightarrow> Inl FileNotADirectory
      | Inr (Some entry) \<Rightarrow>
          (if isDirectory (heap s ! entry) then Inr entry else Inl FileNotADirectory))"

definition lookupAsFile :: "string \<Rightarrow> bool \<Rightarrow> IcrFS \<Rightarrow> error + addr" where
  "lookupAsFile u silent s =
     (case lookup u silent s of
        Inl e \<Rightarrow> Inl e
      | Inr None \<Rightarrow> Inl FileIsADirectory
      | Inr (Some entry) \<Rightarrow>
          (if \<not> isDirectory (heap s ! entry) then Inr entry else Inl FileIsADirectory))"

definition lookupParentDirectory :: "string \<Rightarrow> IcrFS \<Rightarrow> error + addr" where
  "lookupParentDirectory u s = lookupAsDirectory (dirname u) False s"

subsection \<open>Change events\<close>

text \<open>
  \<open>_fireSoon\<close> at time \<open>now\<close>: the events are pushed,
  \<open>clearTimeout\<close> disarms the timer of the stored handle (nothing happens when
  that timer has fired already), and \<open>setTimeout(..., 5)\<close> arms a new timer
  whose handle is stored.
\<close>

definition clearTimeout :: "nat \<Rightarrow> (nat \<times> int) list \<Rightarrow> (nat \<times> int) list" where
  "clearTimeout h ts = AList.delete h ts"

definition fireSoon :: "FileChangeEvent list \<Rightarrow> int \<Rightarrow> IcrFS \<Rightarrow> IcrFS" where
  "fireSoon events now s =
     (let s1 = s\<lparr> bufferedEvents := bufferedEvents s @ events \<rparr>;
          s2 = (case fireSoonHandle s1 of
                  None \<Rightarrow> s1
                | Some h \<Rightarrow> s1\<lparr> timers := clearTimeout h (timers s1) \<rparr>)
      in s2\<lparr> timers := timers s2 @ [(nextTimer s2, now + 5)],
              fireSoonHandle := Some (nextTimer s2),
              nextTimer := Suc (nextTimer s2) \<rparr>)"

text \<open>
  The callback given to \<open>setTimeout\<close>, and the runtime running the armed timer
  \<open>h\<close>: the timer leaves the table and its callback delivers the buffer and
  empties it.
\<close>

definition timeout_callback :: "IcrFS \<Rightarrow> IcrFS" where
  "timeout_callback s = s\<lparr> fired := fired s @ [bufferedEvents s], bufferedEvents := [] \<rparr>"

definition timer_expires :: "nat \<Rightarrow> IcrFS \<Rightarrow> IcrFS" where
  "timer_expires h s =
     (if map_of (timers s) h = None then s
      else timeout_callback (s\<lparr> timers := AList.delete h (timers s) \<rparr>))"

subsection \<open>Reading\<close>

definition readFile :: "string \<Rightarrow> IcrFS \<Rightarrow> error + byte list" where
  "readFile u s =
     (case lookupAsFile u False s of
        Inl e \<Rightarrow> Inl e
      | Inr f \<Rightarrow> (case data (heap s ! f) of Some d \<Rightarrow> Inr d | None \<Rightarrow> Inl FileNotFound))"

subsection \<open>Writing through to the device\<close>

text \<open>
  The identifier that \<open>writeFile\<close> appends to the URL:
  \<open>uri.path.replace(/\//g,'~').substr(0, uri.path.length-5)\<close>. A negative
  length makes \<open>substr\<close> return the empty string, as the truncated subtraction
  does here.
\<close>

definition replace_slashes :: "string \<Rightarrow> string" where
  "replace_slashes p = map (\<lambda>c. if c = CHR ''/'' then CHR ''~'' else c) p"

definition remoteId :: "string \<Rightarrow> string" where
  "remoteId p = take (length p - 5) (replace_slashes p)"

text \<open>
  \<open>this.options!\<close> is undefined until \<open>connect\<close> has run: reading
  its headers throws. \<open>writeFile\<close> does not read its third argument, the flags
  \<open>create\<close> and \<open>overwrite\<close>, which the model leaves out; it does
  not touch the tree.
\<close>

definition writeFile :: "string \<Rightarrow> byte list \<Rightarrow> IcrFS \<Rightarrow> (error + unit) \<times> IcrFS" where
  "writeFile u content s =
     (case options s of
        None \<Rightarrow> (Inl TypeError, s)
      | Some opts \<Rightarrow>
          let apiUrl = ''https://'' @ Host opts @ ''/mgmt/tm'';
              opts1 = opts\<lparr> url := apiUrl @ ''/ltm/rule/'' @ remoteId u \<rparr>;
              opts2 = opts1\<lparr> http_method := ''PUT'' \<rparr>;
              opts3 = opts2\<lparr> contentType := Some ''application/json'' \<rparr>;
              opts4 = opts3\<lparr> body := Some content \<rparr>;
              opts5 = opts4\<lparr> json := True \<rparr>
          in (Inr (), s\<lparr> options := Some opts5,
                          requests := requests s @ [(http_method opts5, url opts5)] \<rparr>))"

subsection \<open>The tree mutators\<close>

text \<open>
  Each operation returns its outcome (\<open>Inl\<close> the error thrown) together with
  the provider as the operation leaves it, also when it throws. \<open>now\<close> is the
  clock during the call: what every \<open>Date.now()\<close> of the call returns and the
  time from which \<open>setTimeout\<close> counts.
\<close>

definition cacheRule ::
  "string \<Rightarrow> byte list \<Rightarrow> bool \<Rightarrow> bool \<Rightarrow> int \<Rightarrow> IcrFS \<Rightarrow> (error + unit) \<times> IcrFS" where
  "cacheRule u content create overwrite now s =
     (let bn = basename u in
      case lookupParentDirectory u s of
        Inl e \<Rightarrow> (Inl e, s)
      | Inr parent \<Rightarrow>
          let entry = map_of (children (heap s ! parent)) bn in
          if (case entry of Some a \<Rightarrow> isDirectory (heap s ! a) | None \<Rightarrow> False)
          then (Inl FileIsADirectory, s)
          else if entry = None \<and> \<not> create then (Inl FileNotFound, s)
          else if entry \<noteq> None \<and> create \<and> \<not> overwrite then (Inl FileExists, s)
          else
            let (a, s1) =
                  (case entry of
                     Some a \<Rightarrow> (a, s)
                   | None \<Rightarrow>
                       let a = length (heap s);
                           h1 = heap s @ [new_File now bn];
                           h2 = h1[parent := set_entries
                                  (AList.update bn a (children (h1 ! parent))) (h1 ! parent)]
                       in (a, fireSoon [Event Created u] now (s\<lparr> heap := h2 \<rparr>)));
                h3 = (heap s1)[a := set_mtime now (heap s1 ! a)];
                h4 = h3[a := set_fsize (int (length content)) (h3 ! a)];
                h5 = h4[a := set_data content (h4 ! a)]
            in (Inr (), fireSoon [Event Changed u] now (s1\<lparr> heap := h5 \<rparr>)))"

definition rename ::
  "string \<Rightarrow> string \<Rightarrow> bool \<Rightarrow> int \<Rightarrow> IcrFS \<Rightarrow> (error + unit) \<times> IcrFS" where
  "rename oldUri newUri overwrite now s =
     (if \<not> overwrite \<and> (case lookup newUri True s of Inr (Some e) \<Rightarrow> True | _ \<Rightarrow> False)
      then (Inl FileExists, s)
      else
        case lookup oldUri False s of
          Inl e \<Rightarrow> (Inl e, s)
        | Inr None \<Rightarrow> (Inl FileNotFound, s)
        | Inr (Some entry) \<Rightarrow>
            (case lookupParentDirectory oldUri s of
               Inl e \<Rightarrow> (Inl e, s)
             | Inr oldParent \<Rightarrow>
                 (case lookupParentDirectory newUri s of
                    Inl e \<Rightarrow> (Inl e, s)
                  | Inr newParent \<Rightarrow>
                      let newName = basename newUri;
                          h = heap s;
                          h1 = h[oldParent := set_entries
                                 (AList.delete (name (h ! entry)) (children (h ! oldParent)))
                                 (h ! oldParent)];
                          h2 = h1[entry := set_name newName (h1 ! entry)];
                          h3 = h2[newParent := set_entries
                                 (AList.update newName entry (children (h2 ! newParent)))
                                 (h2 ! newParent)]
                      in (Inr (), fireSoon [Event Deleted oldUri, Event Created newUri] now
                                    (s\<lparr> heap := h3 \<rparr>)))))"

definition delete :: "string \<Rightarrow> int \<Rightarrow> IcrFS \<Rightarrow> (error + unit) \<times> IcrFS" where
  "delete u now s =
     (let dn = dirname u;
          bn = basename u in
      case lookupAsDirectory dn False s of
        Inl e \<Rightarrow> (Inl e, s)
      | Inr parent \<Rightarrow>
          if map_of (children (heap s ! parent)) bn = None then (Inl FileNotFound, s)
          else
            let h = heap s;
                h1 = h[parent := set_entries (AList.delete bn (children (h ! parent)))
                                   (h ! parent)];
                h2 = h1[parent := set_mtime now (h1 ! parent)];
                h3 = h2[parent := set_fsize (fsize (h2 ! parent) - 1) (h2 ! parent)]
            in (Inr (), fireSoon [Event Changed dn, Event Deleted u] now (s\<lparr> heap := h3 \<rparr>)))"

definition createDirectory :: "string \<Rightarrow> int \<Rightarrow> IcrFS \<Rightarrow> (error + unit) \<times> IcrFS" where
  "createDirectory u now s =
     (let bn = basename u;
          dn = dirname u in
      case lookupAsDirectory dn False s of
        Inl e \<Rightarrow> (Inl e, s)
      | Inr parent \<Rightarrow>
          let entry = length (heap s);
              h1 = heap s @ [new_Directory now bn];
              h2 = h1[parent := set_entries
                     (AList.update (name (h1 ! entry)) entry (children (h1 ! parent)))
                     (h1 ! parent)];
              h3 = h2[parent := set_mtime now (h2 ! parent)];
              h4 = h3[parent := set_fsize (fsize (h3 ! parent) + 1) (h3 ! parent)]
          in (Inr (), fireSoon [Event Changed dn, Event Created u] now (s\<lparr> heap := h4 \<rparr>)))"

subsection \<open>Populating the tree: \<open>connect\<close> and its two callbacks\<close>

text \<open>
  \<open>connect\<close> builds the options, issues the request for the folders and returns; the rest
  happens in the callback the runtime runs when the reply arrives, which issues the request
  for the rules, whose callback does the rest. A reply, as the callback sees it: \<open>error\<close> is
  set; or \<open>JSON.parse(body)\<close> throws; or the parsed body has no \<open>items\<close> (so that
  \<open>items.forEach\<close> throws); or it has the items. An exception that leaves a callback
  reaches the runtime, not the code that called \<open>connect\<close>.

  \<open>vscode.Uri.parse\<close> belongs to the editor, not to this program: \<open>uriParse\<close> gives the
  path of the parsed text, \<open>None\<close> when parsing throws. \<open>apiUrl\<close> is the local variable of
  \<open>connect\<close> that both callbacks close over. \<open>apiAnonymous\<close> holds the bytes that
  \<open>Buffer.from\<close> makes of the field, \<open>None\<close> when the field is missing and
  \<open>Buffer.from\<close> throws.
\<close>

datatype 'a reply = ReplyError | ReplyUnparseable | ReplyNoItems | ReplyItems "'a list"

record Item =
  fullPath :: string
  apiAnonymous :: "byte list option"

definition connect :: "string \<Rightarrow> string \<Rightarrow> string \<Rightarrow> bool \<Rightarrow> IcrFS \<Rightarrow> IcrFS" where
  "connect hostname usr pwd validateCert s =
     (let opts = \<lparr> http_method = ''GET'', url = [], Host = hostname,
                   rejectUnauthorized = validateCert, username = usr, password = pwd,
                   contentType = None, body = None, json = False \<rparr>;
          apiUrl = ''https://'' @ Host opts @ ''/mgmt/tm'';
          opts1 = opts\<lparr> url := apiUrl @ ''/sys/folder'' \<rparr>
      in s\<lparr> options := Some opts1, requests := requests s @ [(http_method opts1, url opts1)] \<rparr>)"

definition folder_item :: "(string \<Rightarrow> string option) \<Rightarrow> int \<Rightarrow> IcrFS \<Rightarrow> Item \<Rightarrow> IcrFS" where
  "folder_item uriParse now s item =
     (if fullPath item = ''/'' then s
      else (case uriParse (''icrfs://'' @ fullPath item @ ''/'') of
              None \<Rightarrow> s
            | Some u \<Rightarrow> snd (createDirectory u now s)))"

definition rule_item :: "(string \<Rightarrow> string option) \<Rightarrow> int \<Rightarrow> IcrFS \<Rightarrow> Item \<Rightarrow> IcrFS" where
  "rule_item uriParse now s item =
     (if fullPath item = ''/'' then s
      else (case uriParse (''icrfs://'' @ fullPath item @ ''.irul'') of
              None \<Rightarrow> s
            | Some u \<Rightarrow>
                (case apiAnonymous item of
                   None \<Rightarrow> s
                 | Some content \<Rightarrow> snd (cacheRule u content True True now s))))"

definition folders_callback ::
  "(string \<Rightarrow> string option) \<Rightarrow> string \<Rightarrow> Item reply \<Rightarrow> int \<Rightarrow> IcrFS \<Rightarrow> (error + unit) \<times> IcrFS" where
  "folders_callback uriParse apiUrl r now s =
     (case r of
        ReplyError \<Rightarrow> (Inl RequestError, s)
      | ReplyUnparseable \<Rightarrow> (Inl SyntaxError, s)
      | ReplyNoItems \<Rightarrow> (Inl TypeError, s)
      | ReplyItems items \<Rightarrow>
          let s1 = foldl (folder_item uriParse now) s items in
          (case options s1 of
             None \<Rightarrow> (Inl TypeError, s1)
           | Some opts \<Rightarrow>
               let opts1 = opts\<lparr> url := apiUrl @ ''/ltm/rule'' \<rparr>
               in (Inr (), s1\<lparr> options := Some opts1,
                               requests := requests s1 @ [(http_method opts1, url opts1)] \<rparr>)))"

definition rules_callback ::
  "(string \<Rightarrow> string option) \<Rightarrow> Item reply \<Rightarrow> int \<Rightarrow> IcrFS \<Rightarrow> (error + unit) \<times> IcrFS" where
  "rules_callback uriParse r now s =
     (case r of
        ReplyError \<Rightarrow> (Inl RequestError, s)
      | ReplyUnparseable \<Rightarrow> (Inl SyntaxError, s)
      | ReplyNoItems \<Rightarrow> (Inl TypeError, s)
      | ReplyItems items \<Rightarrow> (Inr (), foldl (rule_item uriParse now) s items))"

subsection \<open>The command \<open>icrfs.connect\<close> of the extension\<close>

text \<open>
  The extension holds the provider and the flag \<open>initialized\<close>; the command
  reads the settings, here \<open>Config\<close>. What the command returns is what its
  invoker sees.
\<close>

record Config =
  conf_hostname :: string
  conf_username :: string
  conf_password :: string
  conf_validateCert :: bool

record Extension =
  icrFs :: IcrFS
  initialized :: bool

definition activate :: "int \<Rightarrow> Extension" where
  "activate now = \<lparr> icrFs = new_IcrFS now, initialized = False \<rparr>"

definition connect_command :: "Config \<Rightarrow> Extension \<Rightarrow> (error + unit) \<times> Extension" where
  "connect_command cfg x =
     (if initialized x then (Inr (), x)
      else
        let x1 = x\<lparr> initialized := True \<rparr> in
        if conf_hostname cfg = [] then (Inl EvalError, x1)
        else if conf_username cfg = [] then (Inl EvalError, x1)
        else if conf_password cfg = [] then (Inl EvalError, x1)
        else (Inr (), x1\<lparr> icrFs := connect (conf_hostname cfg) (conf_username cfg)
                                      (conf_password cfg) (conf_validateCert cfg) (icrFs x1) \<rparr>))"

text \<open>The runtime running a callback of the provider that the extension holds.\<close>

definition in_extension ::
  "(IcrFS \<Rightarrow> (error + unit) \<times> IcrFS) \<Rightarrow> Extension \<Rightarrow> (error + unit) \<times> Extension" where
  "in_extension cb x = (fst (cb (icrFs x)), x\<lparr> icrFs := snd (cb (icrFs x)) \<rparr>)"

subsection \<open>A burst of calls\<close>

text \<open>
  Calls of \<open>cacheRule\<close> made one after the other with no timer running in
  between: each call is the path, the content, the two flags and the clock.
\<close>

type_synonym put = "string \<times> byte list \<times> bool \<times> bool \<times> int"

fun put_burst :: "put list \<Rightarrow> IcrFS \<Rightarrow> (error + unit) list \<times> IcrFS" where
  "put_burst [] s = ([], s)"
| "put_burst ((u, content, create, overwrite, now) # cs) s =
     (let (r, s1) = cacheRule u content create overwrite now s;
          (rs, s2) = put_burst cs s1
      in (r # rs, s2))"

subsection \<open>Well-formed stores\<close>

text \<open>Every reference held by a directory is the address of an object of the store.\<close>

definition closed :: "store \<Rightarrow> bool" where
  "closed h = (h \<noteq> [] \<and> (\<forall>e \<in> set h. \<forall>kc \<in> set (children e). snd kc < length h))"

text \<open>The timer table holds at most the provider's own timer, the one of the stored handle.\<close>

definition one_timer :: "IcrFS \<Rightarrow> bool" where
  "one_timer s =
     (case timers s of
        [] \<Rightarrow> True
      | [t] \<Rightarrow> fireSoonHandle s = Some (fst t)
      | _ \<Rightarrow> False)"

subsection \<open>Notions used to state the properties\<close>

text \<open>
  The non-empty parts of a path, which are the parts the loop of \<open>_lookup\<close>
  acts on; the objects that the loop passes, from the object it starts at to the one it
  ends at; the single step of the loop; and the store after the three assignments of
  \<open>rename\<close>.
\<close>

definition segments :: "string \<Rightarrow> string list" where
  "segments p = filter (\<lambda>part. part \<noteq> []) (split_slash p)"

fun lookup_trail :: "store \<Rightarrow> addr \<Rightarrow> string list \<Rightarrow> addr list" where
  "lookup_trail h entry [] = [entry]"
| "lookup_trail h entry (part # parts) =
     (if part = [] then lookup_trail h entry parts
      else (case (if isDirectory (h ! entry) then map_of (children (h ! entry)) part else None) of
              None \<Rightarrow> [entry]
            | Some child \<Rightarrow> entry # lookup_trail h child parts))"

definition child_of :: "store \<Rightarrow> addr \<Rightarrow> string \<Rightarrow> addr option" where
  "child_of h a k = (if isDirectory (h ! a) then map_of (children (h ! a)) k else None)"

definition renamed :: "store \<Rightarrow> addr \<Rightarrow> addr \<Rightarrow> addr \<Rightarrow> string \<Rightarrow> store" where
  "renamed h entry oldParent newParent newName =
     (let h1 = h[oldParent := set_entries
                 (AList.delete (name (h ! entry)) (children (h ! oldParent))) (h ! oldParent)];
          h2 = h1[entry := set_name newName (h1 ! entry)];
          h3 = h2[newParent := set_entries
                 (AList.update newName entry (children (h2 ! newParent))) (h2 ! newParent)]
      in h3)"

text \<open>
  An object whose references are all below a bound, and the store after the three
  assignments that end \<open>cacheRule\<close>.
\<close>

definition refs_below :: "nat \<Rightarrow> Entry \<Rightarrow> bool" where
  "refs_below n e = (\<forall>kc \<in> set (children e). snd kc < n)"

definition written :: "store \<Rightarrow> addr \<Rightarrow> int \<Rightarrow> byte list \<Rightarrow> store" where
  "written h a now content =
     (let h3 = h[a := set_mtime now (h ! a)];
          h4 = h3[a := set_fsize (int (length content)) (h3 ! a)];
          h5 = h4[a := set_data content (h4 ! a)]
      in h5)"

subsection \<open>The identifier as the specification words it\<close>

text \<open>
  The specification's wording of the remote identifier, to be compared with
  \<open>remoteId\<close>: the separators are replaced and the file-type suffix
  \<open>.irul\<close> is stripped, a text that does not end with the suffix having
  nothing to strip.
\<close>

definition strip_suffix_spec :: "string \<Rightarrow> string \<Rightarrow> string" where
  "strip_suffix_spec suf p =
     (if length suf \<le> length p \<and> drop (length p - length suf) p = suf
      then take (length p - length suf) p else p)"

definition remoteId_spec :: "string \<Rightarrow> string" where
  "remoteId_spec p = strip_suffix_spec ''.irul'' (replace_slashes p)"

subsection \<open>Example states\<close>

text \<open>
  A provider after \<open>createDirectory\<close> of \<open>/Common/\<close> and
  \<open>cacheRule\<close> of \<open>/Common/test.irul\<close>; a provider whose tree
  holds a file object that has no payload; a provider after one call of
  \<open>_fireSoon\<close> at time 0; a provider and an extension after
  \<open>connect\<close>; settings; and a \<open>uriParse\<close> for texts
  \<open>icrfs://\<close> followed by a plain absolute path.
\<close>

definition example_tree :: IcrFS where
  "example_tree =
     snd (cacheRule ''/Common/test.irul'' [1, 2, 3] True True 2
       (snd (createDirectory ''/Common/'' 1 (new_IcrFS 0))))"

definition example_unpopulated :: IcrFS where
  "example_unpopulated =
     (new_IcrFS 0)\<lparr> heap := [Directory 0 0 0 [] [(''a.irul'', 1)], File 0 0 0 ''a.irul'' None] \<rparr>"

definition example_armed :: IcrFS where
  "example_armed = fireSoon [Event Created ''/a.irul''] 0 (new_IcrFS 0)"

definition example_config :: Config where
  "example_config = \<lparr> conf_hostname = ''bigip'', conf_username = ''admin'',
     conf_password = ''secret'', conf_validateCert = False \<rparr>"

definition example_connected :: Extension where
  "example_connected = snd (connect_command example_config (activate 0))"

definition example_uriParse :: "string \<Rightarrow> string option" where
  "example_uriParse t = Some (drop 8 t)"

text \<open>A burst of three calls: two new rules, the first of them written a second time.\<close>

definition example_burst :: "put list" where
  "example_burst =
     [(''/Common/a.irul'', [1], True, True, 10),
      (''/Common/b.irul'', [2], True, True, 10),
      (''/Common/a.irul'', [3], True, True, 11)]"

section \<open>Properties\<close>

subsection \<open>Field assignments and the store\<close>

lemma isDirectory_set [simp]:
  "isDirectory (set_mtime t e) = isDirectory e"
  "isDirectory (set_fsize k e) = isDirectory e"
  "isDirectory (set_name nm e) = isDirectory e"
  "isDirectory (set_data b e) = isDirectory e"
  "isDirectory (set_entries es e) = isDirectory e"
  by (cases e; simp)+

lemma children_set [simp]:
  "children (set_mtime t e) = children e"
  "children (set_fsize k e) = children e"
  "children (set_name nm e) = children e"
  "children (set_data b e) = children e"
  "isDirectory e \<Longrightarrow> children (set_entries es e) = es"
  "\<not> isDirectory e \<Longrightarrow> children (set_entries es e) = []"
  by (cases e; simp)+

lemma fsize_set [simp]:
  "fsize (set_mtime t e) = fsize e"
  "fsize (set_fsize k e) = k"
  "fsize (set_name nm e) = fsize e"
  "fsize (set_data b e) = fsize e"
  "fsize (set_entries es e) = fsize e"
  by (cases e; simp)+

lemma mtime_set [simp]:
  "mtime (set_mtime t e) = t"
  "mtime (set_fsize k e) = mtime e"
  "mtime (set_name nm e) = mtime e"
  "mtime (set_data b e) = mtime e"
  "mtime (set_entries es e) = mtime e"
  by (cases e; simp)+

lemma name_set [simp]:
  "name (set_mtime t e) = name e"
  "name (set_fsize k e) = name e"
  "name (set_name nm e) = nm"
  "name (set_data b e) = name e"
  "name (set_entries es e) = name e"
  by (cases e; simp)+

lemma data_set [simp]:
  "\<not> isDirectory e \<Longrightarrow> data (set_mtime t e) = data e"
  "\<not> isDirectory e \<Longrightarrow> data (set_fsize k e) = data e"
  "\<not> isDirectory e \<Longrightarrow> data (set_name nm e) = data e"
  "\<not> isDirectory e \<Longrightarrow> data (set_data b e) = Some b"
  "\<not> isDirectory e \<Longrightarrow> data (set_entries es e) = data e"
  by (cases e; simp)+

lemma fireSoon_heap [simp]: "heap (fireSoon evs now s) = heap s"
  by (simp add: fireSoon_def Let_def split: option.splits)

lemma lookup_loop_bound:
  "closed h \<Longrightarrow> e < length h \<Longrightarrow> lookup_loop h e ps = Some b \<Longrightarrow> b < length h"
proof (induction ps arbitrary: e)
  case Nil
  then show ?case by simp
next
  case (Cons p ps)
  show ?case
  proof (cases "p = []")
    case True
    with Cons show ?thesis by simp
  next
    case False
    with Cons.prems(3) obtain c where
      c: "map_of (children (h ! e)) p = Some c" and rest: "lookup_loop h c ps = Some b"
      by (auto split: if_splits option.splits)
    from c have "(p, c) \<in> set (children (h ! e))" by (rule map_of_SomeD)
    with Cons.prems(1,2) have "c < length h"
      unfolding closed_def by (metis nth_mem snd_conv)
    with Cons.IH Cons.prems(1) rest show ?thesis by blast
  qed
qed

lemma lookupAsDirectory_bound:
  assumes "closed (heap s)" and "lookupAsDirectory u silent s = Inr p"
  shows "p < length (heap s) \<and> isDirectory (heap s ! p)"
proof -
  from assms(2) have l: "lookup_loop (heap s) root (split_slash u) = Some p"
    and d: "isDirectory (heap s ! p)"
    by (auto simp: lookupAsDirectory_def lookup_def split: option.splits sum.splits if_splits)
  from assms(1) have "root < length (heap s)" by (simp add: closed_def root_def)
  with lookup_loop_bound[OF assms(1) _ l] d show ?thesis by simp
qed

lemma child_bound:
  "closed h \<Longrightarrow> p < length h \<Longrightarrow> map_of (children (h ! p)) k = Some a \<Longrightarrow> a < length h"
  unfolding closed_def by (metis map_of_SomeD nth_mem snd_conv)


subsection \<open>The timer of the change notifier\<close>

lemma fireSoon_one_timer:
  assumes "one_timer s"
  shows "timers (fireSoon evs now s) = [(nextTimer s, now + 5)]
       \<and> fireSoonHandle (fireSoon evs now s) = Some (nextTimer s)"
proof (cases "timers s")
  case Nil
  then show ?thesis
    by (simp add: fireSoon_def Let_def clearTimeout_def split: option.splits)
next
  case (Cons t ts)
  with assms have "ts = []" and "fireSoonHandle s = Some (fst t)"
    by (auto simp: one_timer_def split: list.splits)
  with Cons show ?thesis
    by (cases t) (simp add: fireSoon_def Let_def clearTimeout_def)
qed

lemma fireSoon_other [simp]:
  "bufferedEvents (fireSoon evs now s) = bufferedEvents s @ evs"
  "fired (fireSoon evs now s) = fired s"
  "nextTimer (fireSoon evs now s) = Suc (nextTimer s)"
  "options (fireSoon evs now s) = options s"
  "requests (fireSoon evs now s) = requests s"
  by (simp_all add: fireSoon_def Let_def split: option.splits)

lemma one_timer_fireSoon: "one_timer s \<Longrightarrow> one_timer (fireSoon evs now s)"
  using fireSoon_one_timer[of s evs now] by (simp add: one_timer_def)

lemma one_timer_heap [simp]: "one_timer (s\<lparr> heap := h \<rparr>) = one_timer s"
  by (simp add: one_timer_def split: list.splits)


text \<open>
  C1, as amended. The claim is that a record arriving while a timer is armed leaves that
  timer and its deadline alone. \<open>_fireSoon\<close> does the opposite: it clears the
  armed timer and arms a new one. In a provider whose only armed timer is the one of its
  handle, after any call of \<open>_fireSoon\<close> at time \<open>now\<close> the only
  armed timer is a new one that expires at \<open>now + 5\<close>; the batch has grown by
  the events of the call and nothing was delivered by the call. When that timer expires,
  the whole batch, the old records and the new ones, is delivered as one list, the batch
  is empty and no timer is armed.
\<close>

theorem fireSoon_rearms_timer:
  assumes "one_timer s"
  shows "timers (fireSoon evs now s) = [(nextTimer s, now + 5)]
       \<and> fireSoonHandle (fireSoon evs now s) = Some (nextTimer s)
       \<and> bufferedEvents (fireSoon evs now s) = bufferedEvents s @ evs
       \<and> fired (fireSoon evs now s) = fired s
       \<and> fired (timer_expires (nextTimer s) (fireSoon evs now s))
           = fired s @ [bufferedEvents s @ evs]
       \<and> bufferedEvents (timer_expires (nextTimer s) (fireSoon evs now s)) = []
       \<and> timers (timer_expires (nextTimer s) (fireSoon evs now s)) = []"
proof -
  from fireSoon_one_timer[OF assms, of evs now]
  have t: "timers (fireSoon evs now s) = [(nextTimer s, now + 5)]"
    and h: "fireSoonHandle (fireSoon evs now s) = Some (nextTimer s)" by simp_all
  from t have "fired (timer_expires (nextTimer s) (fireSoon evs now s))
           = fired (fireSoon evs now s) @ [bufferedEvents (fireSoon evs now s)]"
    "bufferedEvents (timer_expires (nextTimer s) (fireSoon evs now s)) = []"
    "timers (timer_expires (nextTimer s) (fireSoon evs now s)) = []"
    by (simp_all add: timer_expires_def timeout_callback_def)
  with t h show ?thesis by simp
qed

theorem fireSoon_rearms_timer_witness:
  "one_timer example_armed
   \<and> timers example_armed = [(0, 5)]
   \<and> timers (fireSoon [Event Changed ''/a.irul''] 3 example_armed) = [(1, 8)]
   \<and> bufferedEvents (fireSoon [Event Changed ''/a.irul''] 3 example_armed)
       = [Event Created ''/a.irul'', Event Changed ''/a.irul'']
   \<and> fired (fireSoon [Event Changed ''/a.irul''] 3 example_armed) = []
   \<and> fired (timer_expires 1 (fireSoon [Event Changed ''/a.irul''] 3 example_armed))
       = [[Event Created ''/a.irul'', Event Changed ''/a.irul'']]
   \<and> bufferedEvents (timer_expires 1 (fireSoon [Event Changed ''/a.irul''] 3 example_armed))
       = []
   \<and> timers (timer_expires 1 (fireSoon [Event Changed ''/a.irul''] 3 example_armed)) = []"
proof -
  have o: "one_timer example_armed" by code_simp
  have t: "timers example_armed = [(0, 5)]" "nextTimer example_armed = 1"
    "bufferedEvents example_armed = [Event Created ''/a.irul'']"
    "fired example_armed = []" by code_simp+
  from fireSoon_rearms_timer[OF o, of "[Event Changed ''/a.irul'']" 3] o t
  show ?thesis by simp
qed

text \<open>
  C1 as stated fails: a timer armed at time 0 expires at 5; a record arriving at time 3
  removes that timer from the table (handle 0 is no longer armed) and the timer now armed
  expires at 8.
\<close>

theorem fireSoon_keeps_deadline_counterexample:
  "fireSoonHandle example_armed = Some 0
   \<and> map_of (timers example_armed) 0 = Some 5
   \<and> map_of (timers (fireSoon [Event Changed ''/a.irul''] 3 example_armed)) 0 = None
   \<and> timers (fireSoon [Event Changed ''/a.irul''] 3 example_armed) = [(1, 8)]"
  by code_simp

subsection \<open>A burst of \<open>cacheRule\<close> calls\<close>

lemma cacheRule_events:
  assumes "one_timer s" and "cacheRule u content create overwrite now s = (Inr (), s')"
  shows "one_timer s' \<and> timers s' \<noteq> [] \<and> fired s' = fired s
       \<and> (bufferedEvents s' = bufferedEvents s @ [Event Changed u]
          \<or> bufferedEvents s' = bufferedEvents s @ [Event Created u, Event Changed u])"
proof -
  from assms(2) obtain s1 h where
    s': "s' = fireSoon [Event Changed u] now (s1\<lparr> heap := h \<rparr>)"
    and s1: "s1 = s \<or> (\<exists>h2. s1 = fireSoon [Event Created u] now (s\<lparr> heap := h2 \<rparr>))"
    by (auto simp: cacheRule_def Let_def split: sum.splits if_splits option.splits)
  from s1 assms(1) have o1: "one_timer s1"
    by (auto intro: one_timer_fireSoon)
  then have o2: "one_timer (s1\<lparr> heap := h \<rparr>)" by simp
  from fireSoon_one_timer[OF o2] one_timer_fireSoon[OF o2] s'
  have "one_timer s'" "timers s' \<noteq> []" by simp_all
  moreover from s' s1 have "fired s' = fired s" by auto
  moreover from s' s1 have "bufferedEvents s' = bufferedEvents s @ [Event Changed u]
          \<or> bufferedEvents s' = bufferedEvents s @ [Event Created u, Event Changed u]"
    by auto
  ultimately show ?thesis by simp
qed

lemma put_burst_events:
  assumes "one_timer s" and "put_burst cs s = (rs, s')" and "\<forall>r \<in> set rs. r = Inr ()"
  shows "one_timer s' \<and> (cs \<noteq> [] \<longrightarrow> timers s' \<noteq> []) \<and> fired s' = fired s
       \<and> (\<exists>recs. bufferedEvents s' = bufferedEvents s @ recs
            \<and> filter (\<lambda>e. etype e = Changed) recs = map (\<lambda>c. Event Changed (fst c)) cs
            \<and> (\<forall>e \<in> set recs. etype e \<noteq> Changed \<longrightarrow>
                  etype e = Created \<and> uri e \<in> fst ` set cs))"
  using assms
proof (induction cs arbitrary: s rs s')
  case Nil
  then show ?case by simp
next
  case (Cons c cs)
  obtain u content create overwrite now where c: "c = (u, content, create, overwrite, now)"
    by (cases c) auto
  obtain r s1 where r: "cacheRule u content create overwrite now s = (r, s1)"
    by (cases "cacheRule u content create overwrite now s") auto
  obtain rs1 s2 where b: "put_burst cs s1 = (rs1, s2)"
    by (cases "put_burst cs s1") auto
  from Cons.prems(2) c r b have rs: "rs = r # rs1" and s2: "s' = s2" by simp_all
  with Cons.prems(3) have rI: "r = Inr ()" and rsI: "\<forall>r \<in> set rs1. r = Inr ()" by simp_all
  from cacheRule_events[OF Cons.prems(1) r[unfolded rI]]
  have o1: "one_timer s1" and t1: "timers s1 \<noteq> []" and f1: "fired s1 = fired s"
    and e1: "bufferedEvents s1 = bufferedEvents s @ [Event Changed u]
          \<or> bufferedEvents s1 = bufferedEvents s @ [Event Created u, Event Changed u]"
    by simp_all
  from Cons.IH[OF o1 b rsI] obtain recs where
    o2: "one_timer s2" and t2: "cs \<noteq> [] \<longrightarrow> timers s2 \<noteq> []" and f2: "fired s2 = fired s1"
    and e2: "bufferedEvents s2 = bufferedEvents s1 @ recs"
    and ch: "filter (\<lambda>e. etype e = Changed) recs = map (\<lambda>c. Event Changed (fst c)) cs"
    and ot: "\<forall>e \<in> set recs. etype e \<noteq> Changed \<longrightarrow> etype e = Created \<and> uri e \<in> fst ` set cs"
    by blast
  have t2': "timers s2 \<noteq> []"
  proof (cases cs)
    case Nil
    with b t1 show ?thesis by simp
  next
    case (Cons a list)
    with t2 show ?thesis by simp
  qed
  define recs' where "recs' = drop (length (bufferedEvents s)) (bufferedEvents s1) @ recs"
  from e1 have r1: "recs' = Event Changed u # recs \<or> recs' = Event Created u # Event Changed u # recs"
    by (auto simp: recs'_def)
  from e1 e2 have "bufferedEvents s2 = bufferedEvents s @ recs'"
    by (auto simp: recs'_def)
  moreover from r1 ch c have "filter (\<lambda>e. etype e = Changed) recs'
        = map (\<lambda>c. Event Changed (fst c)) (c # cs)" by auto
  moreover from r1 ot c have "\<forall>e \<in> set recs'. etype e \<noteq> Changed \<longrightarrow>
        etype e = Created \<and> uri e \<in> fst ` set (c # cs)" by auto
  ultimately have "\<exists>recs. bufferedEvents s2 = bufferedEvents s @ recs
            \<and> filter (\<lambda>e. etype e = Changed) recs = map (\<lambda>c. Event Changed (fst c)) (c # cs)
            \<and> (\<forall>e \<in> set recs. etype e \<noteq> Changed \<longrightarrow>
                  etype e = Created \<and> uri e \<in> fst ` set (c # cs))"
    by blast
  with o2 t2' f2 f1 s2 show ?case by simp
qed


text \<open>
  C7. In a provider whose timer table holds at most its own timer, a burst of one or more
  \<open>cacheRule\<close> calls that all succeed, with no timer running in between,
  leaves exactly one timer armed and has delivered nothing; the batch has grown by records
  that hold the \<open>Changed\<close> record of every call, in call order, and otherwise
  only \<open>Created\<close> records of paths of the burst; when that timer expires there
  is one delivery, of the whole batch, and neither a record nor a timer is left.
\<close>

theorem put_burst_one_delivery:
  assumes "one_timer s" and "cs \<noteq> []" and "put_burst cs s = (rs, s')"
    and "\<forall>r \<in> set rs. r = Inr ()"
  shows "\<exists>h d recs.
           timers s' = [(h, d)] \<and> fired s' = fired s
         \<and> bufferedEvents s' = bufferedEvents s @ recs
         \<and> filter (\<lambda>e. etype e = Changed) recs = map (\<lambda>c. Event Changed (fst c)) cs
         \<and> (\<forall>e \<in> set recs. etype e \<noteq> Changed \<longrightarrow> etype e = Created \<and> uri e \<in> fst ` set cs)
         \<and> fired (timer_expires h s') = fired s @ [bufferedEvents s @ recs]
         \<and> bufferedEvents (timer_expires h s') = []
         \<and> timers (timer_expires h s') = []"
proof -
  from put_burst_events[OF assms(1,3,4)] assms(2) obtain recs where
    o: "one_timer s'" and t: "timers s' \<noteq> []" and f: "fired s' = fired s"
    and e: "bufferedEvents s' = bufferedEvents s @ recs"
    and ch: "filter (\<lambda>e. etype e = Changed) recs = map (\<lambda>c. Event Changed (fst c)) cs"
    and ot: "\<forall>e \<in> set recs. etype e \<noteq> Changed \<longrightarrow> etype e = Created \<and> uri e \<in> fst ` set cs"
    by blast
  from o t obtain h d where td: "timers s' = [(h, d)]"
    by (cases "timers s'") (auto simp: one_timer_def split: list.splits)
  then have "fired (timer_expires h s') = fired s' @ [bufferedEvents s']"
    "bufferedEvents (timer_expires h s') = []" "timers (timer_expires h s') = []"
    by (simp_all add: timer_expires_def timeout_callback_def)
  with td f e ch ot show ?thesis by auto
qed

theorem put_burst_one_delivery_witness:
  "one_timer example_tree \<and> example_burst \<noteq> []
   \<and> fst (put_burst example_burst example_tree) = [Inr (), Inr (), Inr ()]
   \<and> (\<exists>h d recs.
         timers (snd (put_burst example_burst example_tree)) = [(h, d)]
       \<and> fired (snd (put_burst example_burst example_tree)) = fired example_tree
       \<and> bufferedEvents (snd (put_burst example_burst example_tree))
           = bufferedEvents example_tree @ recs
       \<and> filter (\<lambda>e. etype e = Changed) recs
           = [Event Changed ''/Common/a.irul'', Event Changed ''/Common/b.irul'',
              Event Changed ''/Common/a.irul'']
       \<and> fired (timer_expires h (snd (put_burst example_burst example_tree)))
           = fired example_tree @ [bufferedEvents example_tree @ recs]
       \<and> timers (timer_expires h (snd (put_burst example_burst example_tree))) = [])"
proof -
  have o: "one_timer example_tree" by code_simp
  have n: "example_burst \<noteq> []" by code_simp
  have r: "fst (put_burst example_burst example_tree) = [Inr (), Inr (), Inr ()]" by code_simp
  have p: "put_burst example_burst example_tree
      = (fst (put_burst example_burst example_tree), snd (put_burst example_burst example_tree))"
    by simp
  have a: "\<forall>r \<in> set (fst (put_burst example_burst example_tree)). r = Inr ()"
    by (simp add: r)
  have m: "map (\<lambda>c. Event Changed (fst c)) example_burst
     = [Event Changed ''/Common/a.irul'', Event Changed ''/Common/b.irul'',
              Event Changed ''/Common/a.irul'']" by code_simp
  from put_burst_one_delivery[OF o n p a] obtain h d recs where
    "timers (snd (put_burst example_burst example_tree)) = [(h, d)]"
    "fired (snd (put_burst example_burst example_tree)) = fired example_tree"
    "bufferedEvents (snd (put_burst example_burst example_tree))
           = bufferedEvents example_tree @ recs"
    "filter (\<lambda>e. etype e = Changed) recs = map (\<lambda>c. Event Changed (fst c)) example_burst"
    "fired (timer_expires h (snd (put_burst example_burst example_tree)))
           = fired example_tree @ [bufferedEvents example_tree @ recs]"
    "timers (timer_expires h (snd (put_burst example_burst example_tree))) = []"
    by blast
  with m o n r show ?thesis by auto
qed

subsection \<open>Reading a file\<close>

text \<open>
  C9. When the path resolves to a file object, \<open>readFile\<close> throws
  \<open>FileNotFound\<close> if the object has no payload and returns the payload if it
  has one (an empty one included).
\<close>

theorem readFile_needs_payload:
  assumes "lookup u False s = Inr (Some f)" and "heap s ! f = File c m z n d"
  shows "readFile u s = (case d of None \<Rightarrow> Inl FileNotFound | Some b \<Rightarrow> Inr b)"
  using assms by (simp add: readFile_def lookupAsFile_def split: option.splits)

theorem readFile_needs_payload_witness:
  "lookup ''/a.irul'' False example_unpopulated = Inr (Some 1)
   \<and> heap example_unpopulated ! 1 = File 0 0 0 ''a.irul'' None
   \<and> readFile ''/a.irul'' example_unpopulated = Inl FileNotFound"
proof -
  have l: "lookup ''/a.irul'' False example_unpopulated = Inr (Some 1)" by code_simp
  have h: "heap example_unpopulated ! 1 = File 0 0 0 ''a.irul'' None" by code_simp
  from readFile_needs_payload[OF l h] l h show ?thesis by simp
qed

subsection \<open>The mutators\<close>

text \<open>
  C8. When \<open>createDirectory\<close>, \<open>cacheRule\<close>, \<open>rename\<close>
  or \<open>delete\<close> throws, the provider, and so its tree, is what it was when the
  operation was entered.
\<close>

theorem mutators_atomic:
  "(fst (createDirectory u1 now s) = Inl e1 \<longrightarrow> snd (createDirectory u1 now s) = s)
   \<and> (fst (cacheRule u2 content create overwrite now s) = Inl e2
        \<longrightarrow> snd (cacheRule u2 content create overwrite now s) = s)
   \<and> (fst (rename u3 v3 overwrite now s) = Inl e3 \<longrightarrow> snd (rename u3 v3 overwrite now s) = s)
   \<and> (fst (delete u4 now s) = Inl e4 \<longrightarrow> snd (delete u4 now s) = s)"
proof (intro conjI impI)
  assume "fst (createDirectory u1 now s) = Inl e1"
  then show "snd (createDirectory u1 now s) = s"
    by (auto simp: createDirectory_def Let_def split: sum.splits)
next
  assume "fst (cacheRule u2 content create overwrite now s) = Inl e2"
  then show "snd (cacheRule u2 content create overwrite now s) = s"
    by (auto simp: cacheRule_def Let_def split: sum.splits option.splits if_splits prod.splits)
next
  assume "fst (rename u3 v3 overwrite now s) = Inl e3"
  then show "snd (rename u3 v3 overwrite now s) = s"
    by (auto simp: rename_def Let_def split: sum.splits option.splits if_splits)
next
  assume "fst (delete u4 now s) = Inl e4"
  then show "snd (delete u4 now s) = s"
    by (auto simp: delete_def Let_def split: sum.splits if_splits)
qed

theorem mutators_atomic_witness:
  "fst (createDirectory ''/Missing/dir'' 9 example_tree) = Inl FileNotFound
   \<and> snd (createDirectory ''/Missing/dir'' 9 example_tree) = example_tree
   \<and> fst (cacheRule ''/Common'' [7] True False 9 example_tree) = Inl FileIsADirectory
   \<and> snd (cacheRule ''/Common'' [7] True False 9 example_tree) = example_tree
   \<and> fst (rename ''/Common/test.irul'' ''/Common'' False 9 example_tree) = Inl FileExists
   \<and> snd (rename ''/Common/test.irul'' ''/Common'' False 9 example_tree) = example_tree
   \<and> fst (delete ''/Common/none.irul'' 9 example_tree) = Inl FileNotFound
   \<and> snd (delete ''/Common/none.irul'' 9 example_tree) = example_tree"
proof -
  have a: "fst (createDirectory ''/Missing/dir'' 9 example_tree) = Inl FileNotFound"
    by code_simp
  have b: "fst (cacheRule ''/Common'' [7] True False 9 example_tree) = Inl FileIsADirectory"
    by code_simp
  have c: "fst (rename ''/Common/test.irul'' ''/Common'' False 9 example_tree) = Inl FileExists"
    by code_simp
  have d: "fst (delete ''/Common/none.irul'' 9 example_tree) = Inl FileNotFound"
    by code_simp
  from mutators_atomic[where s = example_tree and now = 9
      and ?u1.0 = "''/Missing/dir''" and ?e1.0 = FileNotFound
      and ?u2.0 = "''/Common''" and content = "[7]" and create = True and overwrite = False
      and ?e2.0 = FileIsADirectory
      and ?u3.0 = "''/Common/test.irul''" and ?v3.0 = "''/Common''" and ?e3.0 = FileExists
      and ?u4.0 = "''/Common/none.irul''" and ?e4.0 = FileNotFound] a b c d
  show ?thesis by simp
qed

text \<open>
  C6. In a store whose references are valid, when the parent resolves as a directory,
  \<open>createDirectory\<close> succeeds whatever the parent holds: the new, empty
  directory is bound to the final segment in the parent's map, in the place of an entry of
  that name if there was one, and the parent's size is one more and its modification time
  the clock, also when an entry was replaced.
\<close>

theorem createDirectory_overwrites:
  assumes par: "lookupAsDirectory (dirname u) False s = Inr parent"
    and cl: "closed (heap s)"
  shows "fst (createDirectory u now s) = Inr ()
    \<and> heap (snd (createDirectory u now s)) ! length (heap s) = new_Directory now (basename u)
    \<and> map_of (children (heap (snd (createDirectory u now s)) ! parent))
        = (map_of (children (heap s ! parent)))(basename u \<mapsto> length (heap s))
    \<and> fsize (heap (snd (createDirectory u now s)) ! parent) = fsize (heap s ! parent) + 1
    \<and> mtime (heap (snd (createDirectory u now s)) ! parent) = now"
proof -
  from lookupAsDirectory_bound[OF cl par]
  have b: "parent < length (heap s)" and d: "isDirectory (heap s ! parent)" by simp_all
  show ?thesis using par b d
    by (simp add: createDirectory_def Let_def nth_append new_Directory_def update_conv')
qed

text \<open>
  The witness creates \<open>/Common\<close> over the existing directory of that name,
  which holds a rule: the root's size goes from 1 to 2 though it still has one entry, and
  the rule is no longer found.
\<close>

theorem createDirectory_overwrites_witness:
  "lookupAsDirectory (dirname ''/Common'') False example_tree = Inr 0
   \<and> closed (heap example_tree)
   \<and> map_of (children (heap example_tree ! 0)) ''Common'' = Some 1
   \<and> fsize (heap example_tree ! 0) = 1
   \<and> fst (createDirectory ''/Common'' 9 example_tree) = Inr ()
   \<and> map_of (children (heap (snd (createDirectory ''/Common'' 9 example_tree)) ! 0)) ''Common''
       = Some 3
   \<and> fsize (heap (snd (createDirectory ''/Common'' 9 example_tree)) ! 0) = 2
   \<and> mtime (heap (snd (createDirectory ''/Common'' 9 example_tree)) ! 0) = 9
   \<and> lookup ''/Common/test.irul'' True example_tree = Inr (Some 2)
   \<and> lookup ''/Common/test.irul'' True (snd (createDirectory ''/Common'' 9 example_tree))
       = Inr None"
proof -
  have p: "lookupAsDirectory (dirname ''/Common'') False example_tree = Inr 0" by code_simp
  have c: "closed (heap example_tree)" by code_simp
  have e: "map_of (children (heap example_tree ! 0)) ''Common'' = Some 1"
    "fsize (heap example_tree ! 0) = 1" "length (heap example_tree) = 3"
    "basename ''/Common'' = ''Common''"
    by code_simp+
  have l: "lookup ''/Common/test.irul'' True example_tree = Inr (Some 2)"
    "lookup ''/Common/test.irul'' True (snd (createDirectory ''/Common'' 9 example_tree))
       = Inr None" by code_simp+
  from createDirectory_overwrites[OF p c, of 9] p c e l show ?thesis by simp
qed

text \<open>
  C4. In a store whose references are valid, when the parent resolves as a directory, the
  outcome of \<open>cacheRule\<close> is decided by the parent's entry at the final
  segment, the checks being made in this order: an entry that is a directory is
  \<open>FileIsADirectory\<close>; no entry and \<open>create\<close> false is
  \<open>FileNotFound\<close>; an entry, \<open>create\<close> true and
  \<open>overwrite\<close> false is \<open>FileExists\<close>; in every other case the
  call succeeds, a file that was absent is created under the final segment, and the file
  has the content as payload, its length as size and the clock as modification time.
\<close>

theorem cacheRule_outcomes:
  assumes par: "lookupParentDirectory u s = Inr parent"
    and cl: "closed (heap s)"
    and ent: "map_of (children (heap s ! parent)) (basename u) = entry"
    and res: "cacheRule u content create overwrite now s = (r, s')"
  shows "(case entry of
            Some a \<Rightarrow>
              if isDirectory (heap s ! a) then r = Inl FileIsADirectory
              else if create \<and> \<not> overwrite then r = Inl FileExists
              else r = Inr ()
                \<and> heap s' ! a = set_data content (set_fsize (int (length content))
                                   (set_mtime now (heap s ! a)))
                \<and> map_of (children (heap s' ! parent)) (basename u) = Some a
          | None \<Rightarrow>
              if \<not> create then r = Inl FileNotFound
              else r = Inr ()
                \<and> heap s' ! length (heap s) =
                     File now now (int (length content)) (basename u) (Some content)
                \<and> map_of (children (heap s' ! parent)) (basename u) = Some (length (heap s)))"
proof -
  from par have par': "lookupAsDirectory (dirname u) False s = Inr parent"
    by (simp add: lookupParentDirectory_def)
  from lookupAsDirectory_bound[OF cl par']
  have b: "parent < length (heap s)" and d: "isDirectory (heap s ! parent)" by simp_all
  show ?thesis
  proof (cases entry)
    case None
    with ent res par b d show ?thesis
      by (auto simp: cacheRule_def Let_def nth_append new_File_def update_conv' split: if_splits)
  next
    case (Some a)
    with ent b cl have a: "a < length (heap s)" by (auto dest: child_bound)
    show ?thesis
    proof (cases "isDirectory (heap s ! a)")
      case True
      with Some ent res par show ?thesis by (auto simp: cacheRule_def Let_def)
    next
      case False
      with d have "a \<noteq> parent" by auto
      with False Some ent res par a b show ?thesis
        by (auto simp: cacheRule_def Let_def split: if_splits)
    qed
  qed
qed

theorem cacheRule_outcomes_witness:
  "lookupParentDirectory ''/Common/test.irul'' example_tree = Inr 1
   \<and> closed (heap example_tree)
   \<and> map_of (children (heap example_tree ! 1)) (basename ''/Common/test.irul'') = Some 2
   \<and> heap example_tree ! 2 = File 2 2 3 ''test.irul'' (Some [1, 2, 3])
   \<and> fst (cacheRule ''/Common/test.irul'' [7, 8] False False 9 example_tree) = Inr ()
   \<and> heap (snd (cacheRule ''/Common/test.irul'' [7, 8] False False 9 example_tree)) ! 2
       = File 2 9 2 ''test.irul'' (Some [7, 8])"
proof -
  have p: "lookupParentDirectory ''/Common/test.irul'' example_tree = Inr 1" by code_simp
  have c: "closed (heap example_tree)" by code_simp
  have e: "map_of (children (heap example_tree ! 1)) (basename ''/Common/test.irul'') = Some 2"
    by code_simp
  have f: "heap example_tree ! 2 = File 2 2 3 ''test.irul'' (Some [1, 2, 3])" by code_simp
  have r: "cacheRule ''/Common/test.irul'' [7, 8] False False 9 example_tree
      = (fst (cacheRule ''/Common/test.irul'' [7, 8] False False 9 example_tree),
         snd (cacheRule ''/Common/test.irul'' [7, 8] False False 9 example_tree))" by simp
  from cacheRule_outcomes[OF p c e r] p c e f show ?thesis by simp
qed

text \<open>
  C10. In a store whose references are valid, when \<open>cacheRule\<close> creates a
  file, the parent gets the new entry and keeps its size and its modification time;
  \<open>createDirectory\<close> adds one to the parent's size and \<open>delete\<close>
  takes one from it, and both set the parent's modification time to the clock.
\<close>

theorem cacheRule_keeps_parent_stat:
  assumes cl: "closed (heap s)"
  shows "(lookupParentDirectory u s = Inr p
          \<and> map_of (children (heap s ! p)) (basename u) = None \<and> create
        \<longrightarrow> fst (cacheRule u content create overwrite now s) = Inr ()
          \<and> map_of (children (heap (snd (cacheRule u content create overwrite now s)) ! p))
              (basename u) = Some (length (heap s))
          \<and> fsize (heap (snd (cacheRule u content create overwrite now s)) ! p)
              = fsize (heap s ! p)
          \<and> mtime (heap (snd (cacheRule u content create overwrite now s)) ! p)
              = mtime (heap s ! p))
     \<and> (lookupAsDirectory (dirname v) False s = Inr q
        \<longrightarrow> fst (createDirectory v now s) = Inr ()
          \<and> fsize (heap (snd (createDirectory v now s)) ! q) = fsize (heap s ! q) + 1
          \<and> mtime (heap (snd (createDirectory v now s)) ! q) = now)
     \<and> (lookupAsDirectory (dirname w) False s = Inr t
          \<and> map_of (children (heap s ! t)) (basename w) \<noteq> None
        \<longrightarrow> fst (delete w now s) = Inr ()
          \<and> fsize (heap (snd (delete w now s)) ! t) = fsize (heap s ! t) - 1
          \<and> mtime (heap (snd (delete w now s)) ! t) = now)"
proof (intro conjI impI)
  assume a: "lookupParentDirectory u s = Inr p
          \<and> map_of (children (heap s ! p)) (basename u) = None \<and> create"
  then have par': "lookupAsDirectory (dirname u) False s = Inr p"
    by (simp add: lookupParentDirectory_def)
  from lookupAsDirectory_bound[OF cl par']
  have b: "p < length (heap s)" and d: "isDirectory (heap s ! p)" by simp_all
  with a have "fst (cacheRule u content create overwrite now s) = Inr ()
          \<and> map_of (children (heap (snd (cacheRule u content create overwrite now s)) ! p))
              (basename u) = Some (length (heap s))
          \<and> fsize (heap (snd (cacheRule u content create overwrite now s)) ! p)
              = fsize (heap s ! p)
          \<and> mtime (heap (snd (cacheRule u content create overwrite now s)) ! p)
              = mtime (heap s ! p)"
    by (auto simp: cacheRule_def Let_def nth_append new_File_def update_conv')
  then show "fst (cacheRule u content create overwrite now s) = Inr ()"
    "map_of (children (heap (snd (cacheRule u content create overwrite now s)) ! p))
              (basename u) = Some (length (heap s))"
    "fsize (heap (snd (cacheRule u content create overwrite now s)) ! p) = fsize (heap s ! p)"
    "mtime (heap (snd (cacheRule u content create overwrite now s)) ! p) = mtime (heap s ! p)"
    by simp_all
next
  assume par: "lookupAsDirectory (dirname v) False s = Inr q"
  from lookupAsDirectory_bound[OF cl par]
  have b: "q < length (heap s)" and d: "isDirectory (heap s ! q)" by simp_all
  with par have "fst (createDirectory v now s) = Inr ()
          \<and> fsize (heap (snd (createDirectory v now s)) ! q) = fsize (heap s ! q) + 1
          \<and> mtime (heap (snd (createDirectory v now s)) ! q) = now"
    by (simp add: createDirectory_def Let_def nth_append new_Directory_def)
  then show "fst (createDirectory v now s) = Inr ()"
    "fsize (heap (snd (createDirectory v now s)) ! q) = fsize (heap s ! q) + 1"
    "mtime (heap (snd (createDirectory v now s)) ! q) = now"
    by simp_all
next
  assume a: "lookupAsDirectory (dirname w) False s = Inr t
          \<and> map_of (children (heap s ! t)) (basename w) \<noteq> None"
  then have par: "lookupAsDirectory (dirname w) False s = Inr t" by simp
  from lookupAsDirectory_bound[OF cl par]
  have b: "t < length (heap s)" and d: "isDirectory (heap s ! t)" by simp_all
  with a have "fst (delete w now s) = Inr ()
          \<and> fsize (heap (snd (delete w now s)) ! t) = fsize (heap s ! t) - 1
          \<and> mtime (heap (snd (delete w now s)) ! t) = now"
    by (auto simp: delete_def Let_def)
  then show "fst (delete w now s) = Inr ()"
    "fsize (heap (snd (delete w now s)) ! t) = fsize (heap s ! t) - 1"
    "mtime (heap (snd (delete w now s)) ! t) = now"
    by simp_all
qed

theorem cacheRule_keeps_parent_stat_witness:
  "closed (heap example_tree)
   \<and> lookupParentDirectory ''/Common/new.irul'' example_tree = Inr 1
   \<and> map_of (children (heap example_tree ! 1)) (basename ''/Common/new.irul'') = None
   \<and> lookupAsDirectory (dirname ''/Common/sub'') False example_tree = Inr 1
   \<and> lookupAsDirectory (dirname ''/Common/test.irul'') False example_tree = Inr 1
   \<and> map_of (children (heap example_tree ! 1)) (basename ''/Common/test.irul'') \<noteq> None
   \<and> fsize (heap example_tree ! 1) = 0 \<and> mtime (heap example_tree ! 1) = 1
   \<and> fst (cacheRule ''/Common/new.irul'' [7] True False 9 example_tree) = Inr ()
   \<and> fsize (heap (snd (cacheRule ''/Common/new.irul'' [7] True False 9 example_tree)) ! 1) = 0
   \<and> mtime (heap (snd (cacheRule ''/Common/new.irul'' [7] True False 9 example_tree)) ! 1) = 1
   \<and> fsize (heap (snd (createDirectory ''/Common/sub'' 9 example_tree)) ! 1) = 1
   \<and> mtime (heap (snd (createDirectory ''/Common/sub'' 9 example_tree)) ! 1) = 9
   \<and> fsize (heap (snd (delete ''/Common/test.irul'' 9 example_tree)) ! 1) = - 1
   \<and> mtime (heap (snd (delete ''/Common/test.irul'' 9 example_tree)) ! 1) = 9"
proof -
  have c: "closed (heap example_tree)" by code_simp
  have h: "lookupParentDirectory ''/Common/new.irul'' example_tree = Inr 1"
    "map_of (children (heap example_tree ! 1)) (basename ''/Common/new.irul'') = None"
    "lookupAsDirectory (dirname ''/Common/sub'') False example_tree = Inr 1"
    "lookupAsDirectory (dirname ''/Common/test.irul'') False example_tree = Inr 1"
    "map_of (children (heap example_tree ! 1)) (basename ''/Common/test.irul'') \<noteq> None"
    "fsize (heap example_tree ! 1) = 0" "mtime (heap example_tree ! 1) = 1"
    by code_simp+
  from cacheRule_keeps_parent_stat[OF c, where u = "''/Common/new.irul''" and p = 1
      and create = True and content = "[7]" and overwrite = False and now = 9
      and v = "''/Common/sub''" and q = 1 and w = "''/Common/test.irul''" and t = 1] c h
  show ?thesis by simp
qed


subsection \<open>The remote identifier\<close>

lemma replace_slashes_append [simp]:
  "replace_slashes (p @ q) = replace_slashes p @ replace_slashes q"
  by (simp add: replace_slashes_def)

lemma length_replace_slashes [simp]: "length (replace_slashes p) = length p"
  by (simp add: replace_slashes_def)

text \<open>
  Once \<open>connect\<close> has set the options, \<open>writeFile\<close> of a path that ends
  with \<open>.irul\<close> issues one \<open>PUT\<close> whose URL ends with the identifier of the
  specification, the path without the suffix and with every \<open>/\<close> replaced by
  \<open>~\<close>, and leaves the tree alone.
\<close>

lemma writeFile_identifier_irul:
  assumes "options s = Some opts" and "u = q @ ''.irul''"
  shows "fst (writeFile u content s) = Inr ()
    \<and> requests (snd (writeFile u content s)) = requests s @
        [(''PUT'', ''https://'' @ Host opts @ ''/mgmt/tm/ltm/rule/'' @ replace_slashes q)]
    \<and> heap (snd (writeFile u content s)) = heap s
    \<and> remoteId u = remoteId_spec u"
  using assms
  by (auto simp: writeFile_def Let_def remoteId_def remoteId_spec_def strip_suffix_spec_def
      replace_slashes_def)

text \<open>
  C5. The identifier in the URL of the \<open>PUT\<close> is to be the path with every
  \<open>/\<close> replaced by \<open>~\<close> and the suffix \<open>.irul\<close> stripped from its end.
  \<open>writeFile\<close> does not do this for a path that does not end with the suffix: it cuts
  five characters without looking at them. For \<open>/Common/a.tcl\<close> the identifier is
  to be \<open>~Common~a.tcl\<close>, and \<open>writeFile\<close> sends the request to
  \<open>~Common~\<close>, having cut \<open>a.tcl\<close>; \<open>/Common/abcde12345\<close> is sent to
  the identifier of the rule \<open>/Common/abcde.irul\<close>, which is another object. For
  \<open>/Common/test.irul\<close> the two agree.
\<close>

theorem writeFile_identifier_failing_input:
  "remoteId_spec ''/Common/a.tcl'' = ''~Common~a.tcl''
   \<and> remoteId ''/Common/a.tcl'' = ''~Common~''
   \<and> replace_slashes ''/Common/a.tcl'' \<noteq> remoteId ''/Common/a.tcl'' @ ''.irul''
   \<and> snd (last (requests (snd (writeFile ''/Common/a.tcl'' [1] (icrFs example_connected)))))
       = ''https://bigip/mgmt/tm/ltm/rule/~Common~''
   \<and> remoteId ''/Common/abcde12345'' = remoteId ''/Common/abcde.irul''
   \<and> remoteId_spec ''/Common/abcde12345'' \<noteq> remoteId_spec ''/Common/abcde.irul''
   \<and> remoteId ''/Common/test.irul'' = ''~Common~test''
   \<and> remoteId_spec ''/Common/test.irul'' = ''~Common~test''"
  by code_simp

subsection \<open>A request of \<open>connect\<close> that fails\<close>

text \<open>
  C2, as amended. The command \<open>icrfs.connect\<close>, run with complete settings
  while the flag is clear, sets the flag, issues the request for the folders and returns
  normally to its invoker. When the reply to the request of either phase is an error or
  cannot be parsed, the callback throws (to the runtime), and the extension is left as it
  was: no object is added, the tree keeps what it held, and the flag stays set, so that
  running the command again returns without issuing a request.
\<close>

theorem request_failure_keeps_guard:
  assumes "r = ReplyError \<or> r = ReplyUnparseable"
    and "conf_hostname cfg \<noteq> [] \<and> conf_username cfg \<noteq> [] \<and> conf_password cfg \<noteq> []"
    and "\<not> initialized x0"
    and "initialized x"
  shows "fst (connect_command cfg x0) = Inr ()
       \<and> initialized (snd (connect_command cfg x0))
       \<and> requests (icrFs (snd (connect_command cfg x0))) = requests (icrFs x0) @
           [(''GET'', ''https://'' @ conf_hostname cfg @ ''/mgmt/tm/sys/folder'')]
       \<and> in_extension (folders_callback uriParse apiUrl r now) x
           = (Inl (if r = ReplyError then RequestError else SyntaxError), x)
       \<and> in_extension (rules_callback uriParse r now) x
           = (Inl (if r = ReplyError then RequestError else SyntaxError), x)
       \<and> connect_command cfg x = (Inr (), x)"
  using assms
  by (auto simp: in_extension_def folders_callback_def rules_callback_def connect_command_def
      connect_def Let_def)

theorem request_failure_keeps_guard_witness:
  "\<not> initialized (activate 0) \<and> initialized example_connected
   \<and> fst (connect_command example_config (activate 0)) = Inr ()
   \<and> in_extension (folders_callback example_uriParse ''https://bigip/mgmt/tm'' ReplyError 1)
        example_connected = (Inl RequestError, example_connected)
   \<and> connect_command example_config example_connected = (Inr (), example_connected)"
proof -
  have c: "conf_hostname example_config \<noteq> [] \<and> conf_username example_config \<noteq> []
      \<and> conf_password example_config \<noteq> []" by code_simp
  have i: "\<not> initialized (activate 0)" "initialized example_connected" by code_simp+
  have r: "(ReplyError :: Item reply) = ReplyError \<or> (ReplyError :: Item reply) = ReplyUnparseable"
    by simp
  from request_failure_keeps_guard[OF r c i, of example_uriParse "''https://bigip/mgmt/tm''" 1] i
  show ?thesis by simp
qed

text \<open>
  C2 as stated fails. The invoker of the command has been given a normal return before
  any reply arrives; the failed reply of the first phase throws in the callback and leaves
  the flag set; the command run again issues no request. A failed reply of the second
  phase does the same and the folders of the first phase stay in the tree.
\<close>

theorem request_failure_counterexample:
  "fst (connect_command example_config (activate 0)) = Inr ()
   \<and> snd (connect_command example_config (activate 0)) = example_connected
   \<and> fst (in_extension (folders_callback example_uriParse ''https://bigip/mgmt/tm''
             ReplyError 1) example_connected) = Inl RequestError
   \<and> initialized (snd (in_extension (folders_callback example_uriParse
             ''https://bigip/mgmt/tm'' ReplyError 1) example_connected))
   \<and> requests (icrFs (snd (connect_command example_config
        (snd (in_extension (folders_callback example_uriParse ''https://bigip/mgmt/tm''
             ReplyError 1) example_connected)))))
       = [(''GET'', ''https://bigip/mgmt/tm/sys/folder'')]
   \<and> fst (in_extension (rules_callback example_uriParse ReplyUnparseable 2)
        (snd (in_extension (folders_callback example_uriParse ''https://bigip/mgmt/tm''
             (ReplyItems [\<lparr> fullPath = ''/Common'', apiAnonymous = None \<rparr>]) 1)
             example_connected))) = Inl SyntaxError
   \<and> initialized (snd (in_extension (rules_callback example_uriParse ReplyUnparseable 2)
        (snd (in_extension (folders_callback example_uriParse ''https://bigip/mgmt/tm''
             (ReplyItems [\<lparr> fullPath = ''/Common'', apiAnonymous = None \<rparr>]) 1)
             example_connected))))
   \<and> lookup ''/Common'' True (icrFs (snd (in_extension
        (rules_callback example_uriParse ReplyUnparseable 2)
        (snd (in_extension (folders_callback example_uriParse ''https://bigip/mgmt/tm''
             (ReplyItems [\<lparr> fullPath = ''/Common'', apiAnonymous = None \<rparr>]) 1)
             example_connected))))) = Inr (Some 1)"
  by code_simp

subsection \<open>Paths and their segments\<close>

lemma split_slash_not_Nil [simp]: "split_slash p \<noteq> []"
  by (induction p) (auto split: list.splits)

lemma split_slash_append:
  "split_slash (a @ CHR ''/'' # b) = split_slash a @ split_slash b"
  by (induction a) (auto split: list.splits)

lemma split_slash_no_slash: "CHR ''/'' \<notin> set p \<Longrightarrow> split_slash p = [p]"
  by (induction p) auto

lemma segments_Nil [simp]: "segments [] = []"
  by (simp add: segments_def)

lemma segments_append: "segments (a @ CHR ''/'' # b) = segments a @ segments b"
  by (simp add: segments_def split_slash_append)

lemma segments_slash [simp]: "segments (CHR ''/'' # b) = segments b"
  using segments_append[of "[]" b] by simp

lemma segments_snoc_slash [simp]: "segments (a @ ''/'') = segments a"
  using segments_append[of a "[]"] by simp

lemma segments_no_slash:
  "CHR ''/'' \<notin> set p \<Longrightarrow> segments p = (if p = [] then [] else [p])"
  by (simp add: segments_def split_slash_no_slash)

lemma segments_slashes: "\<forall>c \<in> set z. c = CHR ''/'' \<Longrightarrow> segments z = []"
  by (induction z) auto

lemma segments_append_slashes:
  assumes "\<forall>c \<in> set z. c = CHR ''/''"
  shows "segments (a @ z) = segments a"
proof (cases z)
  case Nil
  then show ?thesis by simp
next
  case (Cons c z')
  with assms have c: "c = CHR ''/''" and z': "\<forall>c \<in> set z'. c = CHR ''/''" by simp_all
  from z' have "segments z' = []" by (rule segments_slashes)
  then have "segments a @ segments z' = segments a" by simp
  then show ?thesis unfolding Cons c segments_append .
qed

text \<open>The shape of a path that has a last segment.\<close>

lemma path_shape:
  fixes t :: string
  defines "r1 \<equiv> dropWhile (\<lambda>c. c = CHR ''/'') (rev t)"
  defines "sg \<equiv> takeWhile (\<lambda>c. c \<noteq> CHR ''/'') r1"
  defines "r2 \<equiv> dropWhile (\<lambda>c. c \<noteq> CHR ''/'') r1"
  shows "\<exists>z. t = rev r2 @ rev sg @ z \<and> (\<forall>c \<in> set z. c = CHR ''/'')
           \<and> CHR ''/'' \<notin> set sg \<and> (r2 = [] \<or> (\<exists>r'. r2 = CHR ''/'' # r'))"
proof -
  let ?z = "rev (takeWhile (\<lambda>c. c = CHR ''/'') (rev t))"
  have "rev t = takeWhile (\<lambda>c. c = CHR ''/'') (rev t) @ r1"
    by (simp add: r1_def)
  moreover have "r1 = sg @ r2" by (simp add: sg_def r2_def)
  ultimately have "rev t = rev ?z @ sg @ r2" by simp
  then have "rev (rev t) = rev (rev ?z @ sg @ r2)" by simp
  then have t: "t = rev r2 @ rev sg @ ?z" by simp
  have z: "\<forall>c \<in> set ?z. c = CHR ''/''" by (auto dest: set_takeWhileD)
  have s: "CHR ''/'' \<notin> set sg" by (auto simp: sg_def dest: set_takeWhileD)
  have r: "r2 = [] \<or> (\<exists>r'. r2 = CHR ''/'' # r')"
  proof (cases r2)
    case Nil
    then show ?thesis by simp
  next
    case (Cons c r')
    then have "r2 \<noteq> []" by simp
    then have "\<not> (hd r2 \<noteq> CHR ''/'')" unfolding r2_def by (rule hd_dropWhile)
    with Cons show ?thesis by simp
  qed
  from t z s r show ?thesis by blast
qed

lemma segments_shape:
  fixes t :: string
  defines "r1 \<equiv> dropWhile (\<lambda>c. c = CHR ''/'') (rev t)"
  defines "sg \<equiv> takeWhile (\<lambda>c. c \<noteq> CHR ''/'') r1"
  defines "r2 \<equiv> dropWhile (\<lambda>c. c \<noteq> CHR ''/'') r1"
  shows "segments t = (if sg = [] then [] else segments (rev (tl r2)) @ [rev sg])"
    and "sg \<noteq> [] \<Longrightarrow> r2 \<noteq> [] \<Longrightarrow> take (length r2 - 1) t = rev (tl r2)"
proof -
  from path_shape[of t] obtain z where
    t: "t = rev r2 @ rev sg @ z" and z: "\<forall>c \<in> set z. c = CHR ''/''"
    and s: "CHR ''/'' \<notin> set sg" and r: "r2 = [] \<or> (\<exists>r'. r2 = CHR ''/'' # r')"
    unfolding r1_def sg_def r2_def by blast
  show "segments t = (if sg = [] then [] else segments (rev (tl r2)) @ [rev sg])"
  proof (cases "sg = []")
    case True
    have "r1 = []"
    proof (rule ccontr)
      assume n: "r1 \<noteq> []"
      then have "\<not> (hd r1 = CHR ''/'')" unfolding r1_def by (rule hd_dropWhile)
      with n have "takeWhile (\<lambda>c. c \<noteq> CHR ''/'') r1 \<noteq> []" by (cases r1) auto
      with True show False by (simp add: sg_def)
    qed
    then have "r2 = []" by (simp add: r2_def)
    with True t have "t = z" by simp
    with z True show ?thesis by (simp add: segments_slashes)
  next
    case False
    from t z have "segments t = segments (rev r2 @ rev sg)"
      using segments_append_slashes[of z "rev r2 @ rev sg"] by simp
    also have "\<dots> = segments (rev (tl r2)) @ [rev sg]"
    proof (cases r2)
      case Nil
      with s False show ?thesis by (simp add: segments_no_slash)
    next
      case (Cons c r')
      with r have "c = CHR ''/''" by simp
      with Cons have "rev r2 @ rev sg = rev r' @ CHR ''/'' # rev sg" by simp
      then have "segments (rev r2 @ rev sg) = segments (rev r') @ segments (rev sg)"
        by (simp only: segments_append)
      with s False Cons show ?thesis
        by (simp add: segments_no_slash)
    qed
    finally show ?thesis using False by simp
  qed
  show "take (length r2 - 1) t = rev (tl r2)" if "sg \<noteq> []" "r2 \<noteq> []"
  proof -
    from that(2) obtain c r' where c: "r2 = c # r'" by (cases r2) auto
    with t have "t = rev r' @ (c # rev sg @ z)" by simp
    then have "take (length r') t = rev r'" by (metis append_eq_conv_conj length_rev)
    with c show ?thesis by simp
  qed
qed

lemma basename_segments:
  assumes "segments p \<noteq> []"
  shows "basename p = last (segments p)" and "basename p \<noteq> []"
proof -
  define sg where
    "sg = takeWhile (\<lambda>c. c \<noteq> CHR ''/'') (dropWhile (\<lambda>c. c = CHR ''/'') (rev p))"
  define r2 where
    "r2 = dropWhile (\<lambda>c. c \<noteq> CHR ''/'') (dropWhile (\<lambda>c. c = CHR ''/'') (rev p))"
  note shape = segments_shape(1)[of p, folded sg_def r2_def]
  have b: "basename p = rev sg" unfolding basename_def sg_def ..
  from assms shape have n: "sg \<noteq> []" by (cases "sg = []") simp_all
  with shape have "segments p = segments (rev (tl r2)) @ [rev sg]" by simp
  with b show "basename p = last (segments p)" by simp
  from n b show "basename p \<noteq> []" by simp
qed

lemma dirname_absolute:
  "dirname (CHR ''/'' # t) =
     (let r = dropWhile (\<lambda>c. c \<noteq> CHR ''/'') (dropWhile (\<lambda>c. c = CHR ''/'') (rev t))
      in if r = [] then ''/'' else if length r = 1 then ''//''
         else take (length r) (CHR ''/'' # t))"
  by (simp only: dirname_def Let_def list.sel list.distinct if_False if_True simp_thms)

lemma dirname_segments:
  assumes "segments (CHR ''/'' # t) \<noteq> []"
  shows "segments (dirname (CHR ''/'' # t)) = butlast (segments (CHR ''/'' # t))"
proof -
  define sg where
    "sg = takeWhile (\<lambda>c. c \<noteq> CHR ''/'') (dropWhile (\<lambda>c. c = CHR ''/'') (rev t))"
  define r2 where
    "r2 = dropWhile (\<lambda>c. c \<noteq> CHR ''/'') (dropWhile (\<lambda>c. c = CHR ''/'') (rev t))"
  note shape = segments_shape[of t, folded sg_def r2_def]
  from assms have st: "segments t \<noteq> []" by simp
  with shape(1) have n: "sg \<noteq> []" by (cases "sg = []") simp_all
  with shape(1) have s: "segments t = segments (rev (tl r2)) @ [rev sg]"
    by simp
  then have bl: "butlast (segments (CHR ''/'' # t)) = segments (rev (tl r2))" by simp
  have d: "dirname (CHR ''/'' # t) =
     (if r2 = [] then ''/'' else if length r2 = 1 then ''//''
      else take (length r2) (CHR ''/'' # t))"
    unfolding dirname_absolute Let_def r2_def ..
  show ?thesis
  proof (cases "r2 = []")
    case True
    with d have "dirname (CHR ''/'' # t) = ''/''" by simp
    with bl True show ?thesis by simp
  next
    case False
    show ?thesis
    proof (cases "length r2 = 1")
      case True
      then have "tl r2 = []" by (cases r2) auto
      moreover from True False d have "dirname (CHR ''/'' # t) = ''//''" by simp
      ultimately show ?thesis using bl by simp
    next
      case one: False
      from False one d have "dirname (CHR ''/'' # t) = take (length r2) (CHR ''/'' # t)"
        by simp
      also from False have "\<dots> = CHR ''/'' # take (length r2 - 1) t"
        by (cases r2) auto
      also from shape(2)[OF n False] have "\<dots> = CHR ''/'' # rev (tl r2)"
        by simp
      finally show ?thesis using bl by simp
    qed
  qed
qed

lemma path_segments:
  assumes "p \<noteq> []" and "hd p = CHR ''/''" and "segments p \<noteq> []"
  shows "segments p = segments (dirname p) @ [basename p]" and "basename p \<noteq> []"
proof -
  from assms(1,2) obtain t where p: "p = CHR ''/'' # t" by (cases p) auto
  from dirname_segments[of t] basename_segments[OF assms(3)] assms(3) p
  show "segments p = segments (dirname p) @ [basename p]" by simp
  from basename_segments[OF assms(3)] show "basename p \<noteq> []" by simp
qed

subsection \<open>The loop of \<open>_lookup\<close>\<close>

lemma lookup_loop_Cons:
  "lookup_loop h e (p # ps) =
     (if p = [] then lookup_loop h e ps
      else (case child_of h e p of None \<Rightarrow> None | Some c \<Rightarrow> lookup_loop h c ps))"
  by (simp add: child_of_def)

lemma lookup_trail_Cons:
  "lookup_trail h e (p # ps) =
     (if p = [] then lookup_trail h e ps
      else (case child_of h e p of None \<Rightarrow> [e] | Some c \<Rightarrow> e # lookup_trail h c ps))"
  by (simp add: child_of_def)

lemma lookup_loop_filter:
  "lookup_loop h e (filter (\<lambda>p. p \<noteq> []) ps) = lookup_loop h e ps"
  by (induction ps arbitrary: e) (auto split: option.splits)

lemma lookup_trail_filter:
  "lookup_trail h e (filter (\<lambda>p. p \<noteq> []) ps) = lookup_trail h e ps"
  by (induction ps arbitrary: e) (auto split: option.splits)

lemma lookup_loop_segments: "lookup_loop h e (split_slash p) = lookup_loop h e (segments p)"
  by (simp add: segments_def lookup_loop_filter)

lemma lookup_trail_segments: "lookup_trail h e (split_slash p) = lookup_trail h e (segments p)"
  by (simp add: segments_def lookup_trail_filter)

lemma lookup_loop_append:
  "lookup_loop h e (ps @ qs) =
     (case lookup_loop h e ps of None \<Rightarrow> None | Some m \<Rightarrow> lookup_loop h m qs)"
  by (induction ps arbitrary: e) (auto split: option.splits)

lemma lookup_trail_start: "e \<in> set (lookup_trail h e ps)"
  by (induction ps arbitrary: e) (auto split: option.splits)

lemma lookup_trail_end: "lookup_loop h e ps = Some m \<Longrightarrow> m \<in> set (lookup_trail h e ps)"
  by (induction ps arbitrary: e) (auto split: option.splits if_splits)

lemma lookup_loop_frame:
  assumes "lookup_loop h e ps = Some m"
    and "\<And>a k c. child_of h a k = Some c \<Longrightarrow> c \<in> set (lookup_trail h e ps)
           \<Longrightarrow> child_of h' a k = Some c"
  shows "lookup_loop h' e ps = Some m"
  using assms
proof (induction ps arbitrary: e)
  case Nil
  then show ?case by simp
next
  case (Cons p ps)
  show ?case
  proof (cases "p = []")
    case True
    with Cons.prems have "lookup_loop h e ps = Some m" by simp
    moreover from True have "lookup_trail h e (p # ps) = lookup_trail h e ps" by simp
    ultimately have "lookup_loop h' e ps = Some m" using Cons.IH Cons.prems(2) by metis
    with True show ?thesis by simp
  next
    case False
    with Cons.prems(1) obtain c where c: "child_of h e p = Some c"
      and rest: "lookup_loop h c ps = Some m"
      unfolding lookup_loop_Cons by (auto split: option.splits)
    from False c have tr: "lookup_trail h e (p # ps) = e # lookup_trail h c ps"
      unfolding lookup_trail_Cons by simp
    have "c \<in> set (lookup_trail h e (p # ps))"
      unfolding tr using lookup_trail_start[of c h ps] by simp
    with Cons.prems(2) c have c': "child_of h' e p = Some c" by blast
    have "lookup_loop h' c ps = Some m"
    proof (rule Cons.IH[OF rest])
      fix a k d
      assume "child_of h a k = Some d" and "d \<in> set (lookup_trail h c ps)"
      then show "child_of h' a k = Some d" using Cons.prems(2) unfolding tr by simp
    qed
    with False c' show ?thesis unfolding lookup_loop_Cons by simp
  qed
qed

subsection \<open>Renaming\<close>

lemma nth_update_any:
  "h[a := x] ! b = (if a = b \<and> a < length h then x else h ! b)"
proof (cases "a < length h")
  case True
  then show ?thesis by (simp add: nth_list_update)
next
  case False
  then have "length h \<le> a" by simp
  then have "h[a := x] = h" by (rule list_update_beyond)
  with False show ?thesis by simp
qed

lemma isDirectory_update [simp]:
  "isDirectory (h[a := set_entries es (h ! a)] ! b) = isDirectory (h ! b)"
  "isDirectory (h[a := set_name nm (h ! a)] ! b) = isDirectory (h ! b)"
  by (simp_all add: nth_update_any)

lemma renamed_child_of:
  assumes "op < length h" and "np < length h" and "e < length h"
    and "isDirectory (h ! op)" and "isDirectory (h ! np)"
    and "e \<noteq> op" and "e \<noteq> np"
  shows "child_of (renamed h e op np kB) a k =
     (if a = np \<and> k = kB then Some e
      else if a = op \<and> k = name (h ! e) then None
      else child_of h a k)"
proof -
  consider "a = np" "a = op" | "a = np" "a \<noteq> op" | "a \<noteq> np" "a = op" | "a \<noteq> np" "a \<noteq> op"
    by blast
  then show ?thesis
  proof cases
    case 1
    with assms show ?thesis
      by (simp add: renamed_def Let_def child_of_def update_conv' delete_conv')
  next
    case 2
    with assms show ?thesis
      by (simp add: renamed_def Let_def child_of_def update_conv')
  next
    case 3
    with assms show ?thesis
      by (simp add: renamed_def Let_def child_of_def delete_conv')
  next
    case 4
    with assms show ?thesis
      by (cases "a = e") (simp_all add: renamed_def Let_def child_of_def)
  qed
qed

lemma renamed_entry:
  assumes "e < length h" and "e \<noteq> op" and "e \<noteq> np"
  shows "renamed h e op np kB ! e = set_name kB (h ! e)"
  using assms by (simp add: renamed_def Let_def)

lemma rename_success:
  assumes r: "rename A B False now s = (Inr (), s')"
  shows "\<exists>e op np. lookup_loop (heap s) root (split_slash A) = Some e
       \<and> lookup_loop (heap s) root (split_slash B) = None
       \<and> lookup_loop (heap s) root (split_slash (dirname A)) = Some op
       \<and> isDirectory (heap s ! op)
       \<and> lookup_loop (heap s) root (split_slash (dirname B)) = Some np
       \<and> isDirectory (heap s ! np)
       \<and> heap s' = renamed (heap s) e op np (basename B)"
  using r
  by (auto simp: rename_def lookup_def lookupParentDirectory_def lookupAsDirectory_def
      renamed_def Let_def split: option.splits sum.splits if_splits)

lemma rename_moves:
  assumes abs: "A \<noteq> [] \<and> hd A = CHR ''/'' \<and> B \<noteq> [] \<and> hd B = CHR ''/''"
    and r: "rename A B False now s = (Inr (), s')"
    and e: "lookup A False s = Inr (Some e)"
    and cl: "closed (heap s)"
    and nm: "name (heap s ! e) = basename A"
    and trA: "e \<notin> set (lookup_trail (heap s) root (split_slash (dirname A)))"
    and trB: "e \<notin> set (lookup_trail (heap s) root (split_slash (dirname B)))"
  shows "lookup A True s' = Inr None \<and> lookup B True s' = Inr (Some e)
       \<and> heap s' ! e = set_name (basename B) (heap s ! e)"
proof -
  define h where "h = heap s"
  define kA where "kA = basename A"
  define kB where "kB = basename B"
  define dA where "dA = segments (dirname A)"
  define dB where "dB = segments (dirname B)"
  from rename_success[OF r] e obtain op np where
    lA: "lookup_loop h root (segments A) = Some e"
    and lB: "lookup_loop h root (segments B) = None"
    and lop: "lookup_loop h root dA = Some op" and dop: "isDirectory (h ! op)"
    and lnp: "lookup_loop h root dB = Some np" and dnp: "isDirectory (h ! np)"
    and h': "heap s' = renamed h e op np kB"
    unfolding h_def kB_def dA_def dB_def lookup_loop_segments[symmetric]
    by (auto simp: lookup_def split: option.splits if_splits)
  from trA trB have tA: "e \<notin> set (lookup_trail h root dA)"
    and tB: "e \<notin> set (lookup_trail h root dB)"
    unfolding h_def dA_def dB_def lookup_trail_segments[symmetric] by simp_all
  from cl have rb: "root < length h" by (simp add: closed_def root_def h_def)
  from cl have clh: "closed h" by (simp add: h_def)
  from lookup_loop_bound[OF clh rb lA] have eb: "e < length h" .
  from lookup_loop_bound[OF clh rb lop] have opb: "op < length h" .
  from lookup_loop_bound[OF clh rb lnp] have npb: "np < length h" .
  from lookup_trail_end[OF lop] tA have eop: "e \<noteq> op" by auto
  from lookup_trail_end[OF lnp] tB have enp: "e \<noteq> np" by auto
  have sA: "segments A \<noteq> []"
  proof
    assume "segments A = []"
    with lA have "e = root" by simp
    with tA lookup_trail_start[of root h dA] show False by simp
  qed
  have sB: "segments B \<noteq> []"
  proof
    assume "segments B = []"
    with lB show False by simp
  qed
  from abs path_segments[OF _ _ sA] have pA: "segments A = dA @ [kA]" and kA: "kA \<noteq> []"
    unfolding dA_def kA_def by simp_all
  from abs path_segments[OF _ _ sB] have pB: "segments B = dB @ [kB]" and kB: "kB \<noteq> []"
    unfolding dB_def kB_def by simp_all
  from lA lop kA have cA: "child_of h op kA = Some e"
    unfolding pA lookup_loop_append by (auto simp: child_of_def split: option.splits if_splits)
  from lB lnp kB have cB: "child_of h np kB = None"
    unfolding pB lookup_loop_append by (auto simp: child_of_def split: option.splits if_splits)
  from nm have nm': "name (h ! e) = kA" by (simp add: h_def kA_def)
  note ch = renamed_child_of[OF opb npb eb dop dnp eop enp, of kB, unfolded nm']
  have keep: "child_of (renamed h e op np kB) a k = Some c"
    if "child_of h a k = Some c" and "c \<noteq> e" for a k c
  proof -
    from that(1) cB have "\<not> (a = np \<and> k = kB)" by auto
    moreover from that cA have "\<not> (a = op \<and> k = kA)" by auto
    ultimately show ?thesis using that(1) by (auto simp: ch)
  qed
  have lop': "lookup_loop (renamed h e op np kB) root dA = Some op"
  proof (rule lookup_loop_frame[OF lop])
    fix a k c
    assume "child_of h a k = Some c" and "c \<in> set (lookup_trail h root dA)"
    with tA keep show "child_of (renamed h e op np kB) a k = Some c" by blast
  qed
  have lnp': "lookup_loop (renamed h e op np kB) root dB = Some np"
  proof (rule lookup_loop_frame[OF lnp])
    fix a k c
    assume "child_of h a k = Some c" and "c \<in> set (lookup_trail h root dB)"
    with tB keep show "child_of (renamed h e op np kB) a k = Some c" by blast
  qed
  from cA cB have ne: "\<not> (op = np \<and> kA = kB)" by auto
  then have cA': "child_of (renamed h e op np kB) op kA = None" by (auto simp: ch)
  have cB': "child_of (renamed h e op np kB) np kB = Some e" by (simp add: ch)
  from lop' cA' kA have "lookup_loop (heap s') root (segments A) = None"
    unfolding h' pA lookup_loop_append by (simp add: lookup_loop_Cons del: lookup_loop.simps(2))
  then have 1: "lookup A True s' = Inr None"
    by (simp add: lookup_def lookup_loop_segments)
  from lnp' cB' kB have "lookup_loop (heap s') root (segments B) = Some e"
    unfolding h' pB lookup_loop_append by (simp add: lookup_loop_Cons del: lookup_loop.simps(2))
  then have 2: "lookup B True s' = Inr (Some e)"
    by (simp add: lookup_def lookup_loop_segments)
  from renamed_entry[OF eb eop enp] have 3: "heap s' ! e = set_name (basename B) (heap s ! e)"
    unfolding h' by (simp add: h_def kB_def)
  from 1 2 3 show ?thesis by simp
qed

lemma rename_exists:
  "lookup B True s = Inr (Some x) \<Longrightarrow> rename A B False now s = (Inl FileExists, s)"
  by (simp add: rename_def)

lemma renamed_name:
  assumes "e < length h"
  shows "name (renamed h e op np kB ! e) = kB"
  using assms by (simp add: renamed_def Let_def nth_update_any)

text \<open>
  C3, as amended, in a store whose references are valid. A \<open>rename\<close> without
  overwrite throws \<open>FileExists\<close> when the new path resolves. When it succeeds,
  the object that was at the old path has the final segment of the new path as its name
  and, being a file, is otherwise what it was. When moreover both paths are absolute, the
  object was registered under its own name, and it is none of the objects passed on the
  way from the root to the parent of the old path or to the parent of the new path (so the
  old path is not the root and the new path does not lie inside the old one), then
  afterwards the old path resolves to nothing and the new path resolves to that same
  object.
\<close>

theorem rename_moves_node:
  assumes cl: "closed (heap s)"
  shows "(lookup B0 True s = Inr (Some x) \<longrightarrow> rename A0 B0 False now s = (Inl FileExists, s))
    \<and> (rename A B False now s = (Inr (), s') \<and> lookup A False s = Inr (Some e)
        \<longrightarrow> name (heap s' ! e) = basename B
          \<and> (\<not> isDirectory (heap s ! e) \<longrightarrow> heap s' ! e = set_name (basename B) (heap s ! e))
          \<and> (A \<noteq> [] \<and> hd A = CHR ''/'' \<and> B \<noteq> [] \<and> hd B = CHR ''/''
              \<and> name (heap s ! e) = basename A
              \<and> e \<notin> set (lookup_trail (heap s) root (split_slash (dirname A)))
              \<and> e \<notin> set (lookup_trail (heap s) root (split_slash (dirname B)))
            \<longrightarrow> lookup A True s' = Inr None \<and> lookup B True s' = Inr (Some e)
              \<and> heap s' ! e = set_name (basename B) (heap s ! e)))"
proof (intro conjI impI)
  assume "lookup B0 True s = Inr (Some x)"
  then show "rename A0 B0 False now s = (Inl FileExists, s)" by (rule rename_exists)
next
  assume a: "rename A B False now s = (Inr (), s') \<and> lookup A False s = Inr (Some e)"
  from rename_success[of A B now s s'] a obtain op np where
    le: "lookup_loop (heap s) root (split_slash A) = Some e"
    and op: "isDirectory (heap s ! op)" and np: "isDirectory (heap s ! np)"
    and h': "heap s' = renamed (heap s) e op np (basename B)"
    by (auto simp: lookup_def split: option.splits if_splits)
  from cl have "root < length (heap s)" by (simp add: closed_def root_def)
  from lookup_loop_bound[OF cl this le] have eb: "e < length (heap s)" .
  from renamed_name[OF eb] show "name (heap s' ! e) = basename B" unfolding h' .
  show "heap s' ! e = set_name (basename B) (heap s ! e)" if "\<not> isDirectory (heap s ! e)"
  proof -
    from that op np have "e \<noteq> op" "e \<noteq> np" by auto
    from renamed_entry[OF eb this] show ?thesis unfolding h' .
  qed
next
  assume a: "rename A B False now s = (Inr (), s') \<and> lookup A False s = Inr (Some e)"
    and b: "A \<noteq> [] \<and> hd A = CHR ''/'' \<and> B \<noteq> [] \<and> hd B = CHR ''/''
              \<and> name (heap s ! e) = basename A
              \<and> e \<notin> set (lookup_trail (heap s) root (split_slash (dirname A)))
              \<and> e \<notin> set (lookup_trail (heap s) root (split_slash (dirname B)))"
  from a b have "lookup A True s' = Inr None \<and> lookup B True s' = Inr (Some e)
       \<and> heap s' ! e = set_name (basename B) (heap s ! e)"
    by (intro rename_moves[OF _ _ _ cl, where now = now]) simp_all
  then show "lookup A True s' = Inr None" "lookup B True s' = Inr (Some e)"
    "heap s' ! e = set_name (basename B) (heap s ! e)" by simp_all
qed

theorem rename_moves_node_witness:
  "closed (heap example_tree)
   \<and> lookup ''/Common'' True example_tree = Inr (Some 1)
   \<and> rename ''/Common/test.irul'' ''/Common'' False 9 example_tree
       = (Inl FileExists, example_tree)
   \<and> fst (rename ''/Common/test.irul'' ''/moved.irul'' False 9 example_tree) = Inr ()
   \<and> lookup ''/Common/test.irul'' False example_tree = Inr (Some 2)
   \<and> name (heap example_tree ! 2) = basename ''/Common/test.irul''
   \<and> 2 \<notin> set (lookup_trail (heap example_tree) root
                  (split_slash (dirname ''/Common/test.irul'')))
   \<and> 2 \<notin> set (lookup_trail (heap example_tree) root (split_slash (dirname ''/moved.irul'')))
   \<and> lookup ''/Common/test.irul'' True
         (snd (rename ''/Common/test.irul'' ''/moved.irul'' False 9 example_tree)) = Inr None
   \<and> lookup ''/moved.irul'' True
         (snd (rename ''/Common/test.irul'' ''/moved.irul'' False 9 example_tree))
       = Inr (Some 2)
   \<and> heap (snd (rename ''/Common/test.irul'' ''/moved.irul'' False 9 example_tree)) ! 2
       = File 2 2 3 ''moved.irul'' (Some [1, 2, 3])"
proof -
  have c: "closed (heap example_tree)" by code_simp
  have x: "lookup ''/Common'' True example_tree = Inr (Some 1)" by code_simp
  have f: "fst (rename ''/Common/test.irul'' ''/moved.irul'' False 9 example_tree) = Inr ()"
    by code_simp
  then have r: "rename ''/Common/test.irul'' ''/moved.irul'' False 9 example_tree
      = (Inr (), snd (rename ''/Common/test.irul'' ''/moved.irul'' False 9 example_tree))"
    by (simp add: prod_eq_iff)
  have l: "lookup ''/Common/test.irul'' False example_tree = Inr (Some 2)" by code_simp
  have n: "name (heap example_tree ! 2) = basename ''/Common/test.irul''" by code_simp
  have t: "2 \<notin> set (lookup_trail (heap example_tree) root
                  (split_slash (dirname ''/Common/test.irul'')))"
    "2 \<notin> set (lookup_trail (heap example_tree) root (split_slash (dirname ''/moved.irul'')))"
    by code_simp+
  have v: "set_name (basename ''/moved.irul'') (heap example_tree ! 2)
      = File 2 2 3 ''moved.irul'' (Some [1, 2, 3])" by code_simp
  have p: "''/Common/test.irul'' \<noteq> [] \<and> hd ''/Common/test.irul'' = CHR ''/''
      \<and> ''/moved.irul'' \<noteq> [] \<and> hd ''/moved.irul'' = CHR ''/''" by simp
  note w = rename_moves_node[OF c, where ?B0.0 = "''/Common''" and x = 1
      and ?A0.0 = "''/Common/test.irul''" and now = 9
      and A = "''/Common/test.irul''" and B = "''/moved.irul''" and e = 2
      and s' = "snd (rename ''/Common/test.irul'' ''/moved.irul'' False 9 example_tree)"]
  from w[THEN conjunct1, THEN mp, OF x]
  have 1: "rename ''/Common/test.irul'' ''/Common'' False 9 example_tree
       = (Inl FileExists, example_tree)" .
  from w[THEN conjunct2, THEN mp, OF conjI[OF r l], THEN conjunct2, THEN conjunct2, THEN mp] p n t
  have 2: "lookup ''/Common/test.irul'' True
         (snd (rename ''/Common/test.irul'' ''/moved.irul'' False 9 example_tree)) = Inr None
   \<and> lookup ''/moved.irul'' True
         (snd (rename ''/Common/test.irul'' ''/moved.irul'' False 9 example_tree))
       = Inr (Some 2)
   \<and> heap (snd (rename ''/Common/test.irul'' ''/moved.irul'' False 9 example_tree)) ! 2
       = set_name (basename ''/moved.irul'') (heap example_tree ! 2)" by blast
  from c x 1 f l n t 2 show ?thesis unfolding v by (intro conjI) simp_all
qed

text \<open>
  C3 as stated fails. Renaming the directory \<open>/Common\<close> to
  \<open>/Common/sub\<close>, a path inside itself, succeeds, and afterwards the new path
  resolves to nothing: the directory left the root's map and was put into its own.
  Renaming the root to \<open>/x\<close> succeeds, and afterwards the old path
  \<open>/\<close> still resolves, to the root.
\<close>

theorem rename_invariant_counterexample:
  "lookup ''/Common'' False example_tree = Inr (Some 1)
   \<and> lookup ''/Common/sub'' True example_tree = Inr None
   \<and> fst (rename ''/Common'' ''/Common/sub'' False 9 example_tree) = Inr ()
   \<and> lookup ''/Common/sub'' True (snd (rename ''/Common'' ''/Common/sub'' False 9 example_tree))
       = Inr None
   \<and> lookup ''/x'' True (new_IcrFS 0) = Inr None
   \<and> fst (rename ''/'' ''/x'' False 9 (new_IcrFS 0)) = Inr ()
   \<and> lookup ''/'' True (snd (rename ''/'' ''/x'' False 9 (new_IcrFS 0))) = Inr (Some 0)"
  by code_simp

subsection \<open>The two invariants\<close>

text \<open>
  The properties above that assume a store whose references are valid, or a timer table
  that holds at most the provider's own timer, are about every state the provider can
  reach: both hold of a new provider and each mutator keeps them, as does a timer that
  expires.
\<close>

lemma closed_refs: "closed h = (h \<noteq> [] \<and> (\<forall>e \<in> set h. refs_below (length h) e))"
  by (simp add: closed_def refs_below_def)

lemma refs_below_mono: "refs_below n e \<Longrightarrow> n \<le> m \<Longrightarrow> refs_below m e"
  by (auto simp: refs_below_def)

lemma refs_below_set [simp]:
  "refs_below n (set_mtime t e) = refs_below n e"
  "refs_below n (set_fsize k e) = refs_below n e"
  "refs_below n (set_name nm e) = refs_below n e"
  "refs_below n (set_data b e) = refs_below n e"
  by (simp_all add: refs_below_def)

lemma refs_below_set_entries:
  "\<forall>kc \<in> set es. snd kc < n \<Longrightarrow> refs_below n (set_entries es e)"
  by (cases e) (simp_all add: refs_below_def)

lemma set_alist_update: "kc \<in> set (AList.update k v al) \<Longrightarrow> kc = (k, v) \<or> kc \<in> set al"
  by (induction al) (auto split: if_splits)

lemma set_alist_delete: "kc \<in> set (AList.delete k al) \<Longrightarrow> kc \<in> set al"
  by (simp add: AList.delete_eq)

lemma refs_below_update:
  "refs_below n e \<Longrightarrow> v < n \<Longrightarrow> refs_below n (set_entries (AList.update k v (children e)) e)"
  by (rule refs_below_set_entries) (auto simp: refs_below_def dest!: set_alist_update)

lemma refs_below_delete:
  "refs_below n e \<Longrightarrow> refs_below n (set_entries (AList.delete k (children e)) e)"
  by (rule refs_below_set_entries) (auto simp: refs_below_def dest!: set_alist_delete)

lemma closed_nth: "closed h \<Longrightarrow> a < length h \<Longrightarrow> refs_below (length h) (h ! a)"
  by (simp add: closed_refs)

lemma closed_list_update:
  assumes "closed h" and "refs_below (length h) x"
  shows "closed (h[a := x])"
proof -
  have "set (h[a := x]) \<subseteq> insert x (set h)" by (rule set_update_subset_insert)
  with assms show ?thesis by (auto simp: closed_refs)
qed

lemma closed_append:
  assumes "closed h" and "refs_below (Suc (length h)) x"
  shows "closed (h @ [x])"
  using assms by (auto simp: closed_refs intro: refs_below_mono)

lemma closed_new: "closed (heap (new_IcrFS now))"
  by (simp add: new_IcrFS_def closed_def new_Directory_def)

lemma closed_createDirectory:
  assumes "closed (heap s)"
  shows "closed (heap (snd (createDirectory u now s)))"
proof (cases "lookupAsDirectory (dirname u) False s")
  case (Inl e)
  with assms show ?thesis by (simp add: createDirectory_def Let_def)
next
  case (Inr parent)
  define h1 where "h1 = heap s @ [new_Directory now (basename u)]"
  define h2 where "h2 = h1[parent := set_entries
     (AList.update (name (h1 ! length (heap s))) (length (heap s)) (children (h1 ! parent)))
     (h1 ! parent)]"
  define h3 where "h3 = h2[parent := set_mtime now (h2 ! parent)]"
  define h4 where "h4 = h3[parent := set_fsize (fsize (h3 ! parent) + 1) (h3 ! parent)]"
  from lookupAsDirectory_bound[OF assms Inr] have b: "parent < length (heap s)" by simp
  have c1: "closed h1" unfolding h1_def
    by (rule closed_append[OF assms]) (simp add: refs_below_def new_Directory_def)
  have l1: "length h1 = Suc (length (heap s))" by (simp add: h1_def)
  from b l1 have b1: "parent < length h1" by simp
  have c2: "closed h2" unfolding h2_def
    by (rule closed_list_update[OF c1], rule refs_below_update[OF closed_nth[OF c1 b1]])
       (simp add: l1)
  have b2: "parent < length h2" using b1 by (simp add: h2_def)
  have c3: "closed h3" unfolding h3_def
    using closed_nth[OF c2 b2] by (intro closed_list_update[OF c2]) simp
  have b3: "parent < length h3" using b2 by (simp add: h3_def)
  have c4: "closed h4" unfolding h4_def
    using closed_nth[OF c3 b3] by (intro closed_list_update[OF c3]) simp
  from Inr have "heap (snd (createDirectory u now s)) = h4"
    by (simp add: createDirectory_def Let_def h1_def h2_def h3_def h4_def)
  with c4 show ?thesis by simp
qed

lemma closed_modify:
  assumes "closed h" and "\<And>e. refs_below (length h) e \<Longrightarrow> refs_below (length h) (f e)"
  shows "closed (h[a := f (h ! a)])"
proof (cases "a < length h")
  case True
  from assms(2)[OF closed_nth[OF assms(1) True]] show ?thesis
    by (rule closed_list_update[OF assms(1)])
next
  case False
  then have "length h \<le> a" by simp
  then have "h[a := f (h ! a)] = h" by (rule list_update_beyond)
  with assms(1) show ?thesis by simp
qed

lemma closed_set_mtime: "closed h \<Longrightarrow> closed (h[a := set_mtime t (h ! a)])"
  by (rule closed_modify) simp_all

lemma closed_set_fsize: "closed h \<Longrightarrow> closed (h[a := set_fsize k (h ! a)])"
  by (rule closed_modify) simp_all

lemma closed_set_name: "closed h \<Longrightarrow> closed (h[a := set_name nm (h ! a)])"
  by (rule closed_modify) simp_all

lemma closed_set_data: "closed h \<Longrightarrow> closed (h[a := set_data b (h ! a)])"
  by (rule closed_modify) simp_all

lemma closed_entries_delete:
  "closed h \<Longrightarrow> closed (h[a := set_entries (AList.delete k (children (h ! a))) (h ! a)])"
  by (rule closed_modify[where f = "\<lambda>e. set_entries (AList.delete k (children e)) e"])
     (simp_all add: refs_below_delete)

lemma closed_entries_update:
  "closed h \<Longrightarrow> v < length h
   \<Longrightarrow> closed (h[a := set_entries (AList.update k v (children (h ! a))) (h ! a)])"
  by (rule closed_modify[where f = "\<lambda>e. set_entries (AList.update k v (children e)) e"])
     (simp_all add: refs_below_update)

lemma closed_new_File: "closed h \<Longrightarrow> closed (h @ [new_File now nm])"
  by (rule closed_append) (simp_all add: refs_below_def new_File_def)

lemma closed_written: "closed h \<Longrightarrow> closed (written h a now content)"
  unfolding written_def Let_def
  by (intro closed_set_data closed_set_fsize closed_set_mtime)

lemma cacheRule_heap:
  "heap (snd (cacheRule u content create overwrite now s)) = heap s
   \<or> (\<exists>a. heap (snd (cacheRule u content create overwrite now s))
            = written (heap s) a now content)
   \<or> (\<exists>parent. lookupParentDirectory u s = Inr parent
        \<and> heap (snd (cacheRule u content create overwrite now s))
            = written ((heap s @ [new_File now (basename u)])
                [parent := set_entries (AList.update (basename u) (length (heap s))
                   (children ((heap s @ [new_File now (basename u)]) ! parent)))
                   ((heap s @ [new_File now (basename u)]) ! parent)])
                (length (heap s)) now content)"
  by (auto simp: cacheRule_def written_def Let_def split: sum.splits option.splits)

lemma closed_cacheRule:
  assumes "closed (heap s)"
  shows "closed (heap (snd (cacheRule u content create overwrite now s)))"
proof -
  let ?h' = "heap (snd (cacheRule u content create overwrite now s))"
  from cacheRule_heap[of u content create overwrite now s]
  consider "?h' = heap s" | a where "?h' = written (heap s) a now content"
    | parent where "lookupParentDirectory u s = Inr parent"
        "?h' = written ((heap s @ [new_File now (basename u)])
                [parent := set_entries (AList.update (basename u) (length (heap s))
                   (children ((heap s @ [new_File now (basename u)]) ! parent)))
                   ((heap s @ [new_File now (basename u)]) ! parent)])
                (length (heap s)) now content"
    by blast
  then show ?thesis
  proof cases
    case 1
    with assms show ?thesis by simp
  next
    case 2
    with closed_written[OF assms] show ?thesis by simp
  next
    case 3
    have "closed ((heap s @ [new_File now (basename u)])
        [parent := set_entries (AList.update (basename u) (length (heap s))
           (children ((heap s @ [new_File now (basename u)]) ! parent)))
           ((heap s @ [new_File now (basename u)]) ! parent)])"
      by (rule closed_entries_update[OF closed_new_File[OF assms]]) simp
    from closed_written[OF this] 3(2) show ?thesis by simp
  qed
qed

lemma closed_delete:
  assumes "closed (heap s)"
  shows "closed (heap (snd (delete u now s)))"
proof (cases "fst (delete u now s)")
  case (Inl e)
  then have "snd (delete u now s) = s"
    by (auto simp: delete_def Let_def split: sum.splits if_splits)
  with assms show ?thesis by simp
next
  case (Inr x)
  then obtain parent where p: "lookupAsDirectory (dirname u) False s = Inr parent"
    and n: "map_of (children (heap s ! parent)) (basename u) \<noteq> None"
    by (auto simp: delete_def Let_def split: sum.splits if_splits)
  define h1 where "h1 = (heap s)[parent := set_entries
      (AList.delete (basename u) (children (heap s ! parent))) (heap s ! parent)]"
  define h2 where "h2 = h1[parent := set_mtime now (h1 ! parent)]"
  define h3 where "h3 = h2[parent := set_fsize (fsize (h2 ! parent) - 1) (h2 ! parent)]"
  have "closed h1" unfolding h1_def by (rule closed_entries_delete[OF assms])
  then have "closed h2" unfolding h2_def by (rule closed_set_mtime)
  then have c: "closed h3" unfolding h3_def by (rule closed_set_fsize)
  from n obtain y where "map_of (children (heap s ! parent)) (basename u) = Some y" by blast
  with p have "heap (snd (delete u now s)) = h3"
    by (simp add: delete_def Let_def h1_def h2_def h3_def)
  with c show ?thesis by simp
qed

lemma closed_rename:
  assumes "closed (heap s)"
  shows "closed (heap (snd (rename A B overwrite now s)))"
proof (cases "fst (rename A B overwrite now s)")
  case (Inl e)
  then have "snd (rename A B overwrite now s) = s"
    by (auto simp: rename_def Let_def split: sum.splits option.splits if_splits)
  with assms show ?thesis by simp
next
  case (Inr u)
  then obtain e op np where
    le: "lookup_loop (heap s) root (split_slash A) = Some e"
    and h': "heap (snd (rename A B overwrite now s)) = renamed (heap s) e op np (basename B)"
    by (auto simp: rename_def lookup_def renamed_def Let_def
        split: sum.splits option.splits if_splits)
  from assms have "root < length (heap s)" by (simp add: closed_def root_def)
  from lookup_loop_bound[OF assms this le] have eb: "e < length (heap s)" .
  show ?thesis unfolding h' renamed_def Let_def
    by (intro closed_entries_update closed_set_name closed_entries_delete assms)
       (simp add: eb)
qed

lemma one_timer_new: "one_timer (new_IcrFS now)"
  by (simp add: new_IcrFS_def one_timer_def)

lemma one_timer_createDirectory:
  "one_timer s \<Longrightarrow> one_timer (snd (createDirectory u now s))"
  by (auto simp: createDirectory_def Let_def split: sum.splits intro!: one_timer_fireSoon)

lemma one_timer_cacheRule:
  "one_timer s \<Longrightarrow> one_timer (snd (cacheRule u content create overwrite now s))"
  by (auto simp: cacheRule_def Let_def split: sum.splits option.splits
      intro!: one_timer_fireSoon)

lemma one_timer_rename:
  "one_timer s \<Longrightarrow> one_timer (snd (rename A B overwrite now s))"
  by (auto simp: rename_def Let_def split: sum.splits option.splits intro!: one_timer_fireSoon)

lemma one_timer_delete:
  "one_timer s \<Longrightarrow> one_timer (snd (delete u now s))"
  by (auto simp: delete_def Let_def split: sum.splits intro!: one_timer_fireSoon)

lemma one_timer_expires: "one_timer s \<Longrightarrow> one_timer (timer_expires h s)"
  by (cases "timers s")
     (auto simp: one_timer_def timer_expires_def timeout_callback_def split: list.splits)

end
